theory Spec2Isabelle
  imports Main
begin

section \<open>Constants of ChatClass.h\<close>

text \<open>
  A C \<open>char\<close> is a \<^typ>\<open>char\<close> (eight bits), a buffer of them a \<^typ>\<open>string\<close>.
  Sizes and counters that the source keeps in an \<open>int\<close> are \<^typ>\<open>int\<close> here;
  the one place where a wider value is narrowed to 32 bits (the size of the file to send)
  applies \<open>s32\<close> explicitly.
\<close>

definition ASCII_NULL_ZERO :: char where
  "ASCII_NULL_ZERO = CHR 0x00"

definition ASCII_LINE_FEED :: char where
  "ASCII_LINE_FEED = CHR 0x0A"

definition ASCII_CARRIAGE_RETURN :: char where
  "ASCII_CARRIAGE_RETURN = CHR 0x0D"

definition MAX_OUT_DATA_SIZE :: nat where
  "MAX_OUT_DATA_SIZE = 1024"

definition MAX_FILE_WRITE_RETRY_COUNT :: nat where
  "MAX_FILE_WRITE_RETRY_COUNT = 20"

definition MAX_FILE_OVERWRITE_CHECK :: nat where
  "MAX_FILE_OVERWRITE_CHECK = 20"

definition UDP_IN_BUFFER_SIZE :: nat where
  "UDP_IN_BUFFER_SIZE = 1024 * 2"

definition XFER_HDR_CMD_SIZE :: nat where
  "XFER_HDR_CMD_SIZE = 11"

definition XFER_HDR_NAME_SZIE :: nat where
  "XFER_HDR_NAME_SZIE = 101"

definition HANDLE_NOT_VALID :: int where
  "HANDLE_NOT_VALID = - 1"

definition ERRORLEVEL_NO_SOCKET :: int where
  "ERRORLEVEL_NO_SOCKET = 10"

definition ERRORLEVEL_NO_BIND :: int where
  "ERRORLEVEL_NO_BIND = 11"

text \<open>The enumeration \<open>transfer_type\<close> is left a signed integer on the wire.\<close>

definition trans_type_send :: int where
  "trans_type_send = 1"

definition trans_type_get_request :: int where
  "trans_type_get_request = 2"

section \<open>C strings and 32-bit integers in memory\<close>

text \<open>The string that starts at a pointer: the bytes before the first NUL.\<close>

definition c_string :: "string \<Rightarrow> string" where
  "c_string m = takeWhile (\<lambda>ch. ch \<noteq> ASCII_NULL_ZERO) m"

text \<open>Conversion of a wider integer to a 32-bit \<open>int\<close> (two's complement).\<close>

definition s32 :: "int \<Rightarrow> int" where
  "s32 n = signed_take_bit 31 n"

text \<open>A 32-bit \<open>int\<close> as it lies in memory, least significant byte first.\<close>

definition int_bytes :: "int \<Rightarrow> string" where
  "int_bytes n = [char_of n, char_of (n div 256), char_of (n div 65536), char_of (n div 16777216)]"

fun bytes_int :: "string \<Rightarrow> int" where
  "bytes_int (b0 # b1 # b2 # b3 # _) =
     s32 (of_char b0 + 256 * of_char b1 + 65536 * of_char b2 + 16777216 * of_char b3)"
| "bytes_int _ = 0"

text \<open>\<open>sprintf( to_append, "%d", n )\<close> for a count that is not negative.\<close>

definition digit_char :: "nat \<Rightarrow> char" where
  "digit_char d = char_of (48 + d)"

fun decimal :: "nat \<Rightarrow> string" where
  "decimal n = (if n < 10 then [digit_char n] else decimal (n div 10) @ [digit_char (n mod 10)])"

declare decimal.simps [simp del]

text \<open>\<open>strstr( hay, needle ) != NULL\<close>.\<close>

fun strstr :: "string \<Rightarrow> string \<Rightarrow> bool" where
  "strstr [] needle = (needle = [])"
| "strstr (h # hay) needle = (take (length needle) (h # hay) = needle \<or> strstr hay needle)"

text \<open>\<open>v.erase( v.begin() + i )\<close>.\<close>

definition erase :: "nat \<Rightarrow> 'a list \<Rightarrow> 'a list" where
  "erase i xs = take i xs @ drop (Suc i) xs"

section \<open>The file transfer header\<close>

text \<open>
  \<open>file_transfer_header\<close> is overlaid on the bytes of a frame. With a four-byte
  \<open>int\<close> and a four-byte enumeration the fields lie at offsets 0, 11, 112 and 116 and
  the structure has 120 bytes, without padding.
\<close>

record file_transfer_header =
  header_command :: string
  file_name :: string
  file_size :: int
  trans_type :: int

definition sizeof_file_header :: nat where
  "sizeof_file_header = 120"

text \<open>\<open>memcpy( &file_header, this_data_p, sizeof( file_header ) )\<close>\<close>

definition header_of_bytes :: "string \<Rightarrow> file_transfer_header" where
  "header_of_bytes m =
     \<lparr>header_command = take XFER_HDR_CMD_SIZE m,
      file_name = take XFER_HDR_NAME_SZIE (drop XFER_HDR_CMD_SIZE m),
      file_size = bytes_int (drop 112 m),
      trans_type = bytes_int (drop 116 m)\<rparr>"

text \<open>The bytes that \<open>send_data( (char *)&file_header, sizeof( file_header ) )\<close> reads.\<close>

definition bytes_of_header :: "file_transfer_header \<Rightarrow> string" where
  "bytes_of_header h =
     header_command h @ file_name h @ int_bytes (file_size h) @ int_bytes (trans_type h)"

text \<open>
  The memory from \<open>file_header.file_name\<close> to the end of the structure: a string
  function given the field reads on into the two integers when the field holds no NUL.
\<close>

definition file_name_region :: "file_transfer_header \<Rightarrow> string" where
  "file_name_region h = file_name h @ int_bytes (file_size h) @ int_bytes (trans_type h)"

section \<open>The world outside the class\<close>

text \<open>What the program prints with \<open>printf\<close>, one constructor per format string.\<close>

datatype message =
    Unable_to_acquire_socket
  | Unable_to_bind int
  | Unable_to_send
  | Sending string int
  | File_not_found string
  | File_requested string
  | Aborted_previous string
  | Inbound_file string int string
  | Transfer_timed_out

text \<open>
  The file system holds the files by name and the open \<open>FILE\<close> objects by number.
  \<open>fwrite_script\<close> and \<open>sendto_script\<close> script what the next calls of
  \<open>fwrite\<close> and \<open>sendto\<close> return (a slow disk, a full queue, an error); once a
  script is used up every call takes the whole request. \<open>wire\<close> lists the datagrams that
  \<open>sendto\<close> took, \<open>clock\<close> is what \<open>time( NULL )\<close> returns.
\<close>

record world =
  fs_files :: "string \<rightharpoonup> string"
  fs_streams :: "nat \<rightharpoonup> string"
  fs_next :: nat
  fopen_wb_fails :: "string \<Rightarrow> bool"
  fwrite_script :: "nat list"
  sendto_script :: "int list"
  clock :: int
  wire :: "string list"
  console :: "message list"

definition printf :: "message \<Rightarrow> world \<Rightarrow> world" where
  "printf msg w = w\<lparr>console := console w @ [msg]\<rparr>"

definition sleep :: "int \<Rightarrow> world \<Rightarrow> world" where
  "sleep secs w = w\<lparr>clock := clock w + secs\<rparr>"

definition fopen_rb :: "string \<Rightarrow> world \<Rightarrow> nat option \<times> world" where
  "fopen_rb path w =
     (if fs_files w path = None then (None, w)
      else (Some (fs_next w),
            w\<lparr>fs_streams := (fs_streams w)(fs_next w \<mapsto> path), fs_next := Suc (fs_next w)\<rparr>))"

definition fopen_wb :: "string \<Rightarrow> world \<Rightarrow> nat option \<times> world" where
  "fopen_wb path w =
     (if fopen_wb_fails w path then (None, w)
      else (Some (fs_next w),
            w\<lparr>fs_files := (fs_files w)(path \<mapsto> []),
              fs_streams := (fs_streams w)(fs_next w \<mapsto> path),
              fs_next := Suc (fs_next w)\<rparr>))"

definition fclose :: "nat \<Rightarrow> world \<Rightarrow> world" where
  "fclose h w = w\<lparr>fs_streams := (fs_streams w)(h := None)\<rparr>"

text \<open>One call of \<open>fwrite( data, 1, size, stream )\<close>: the count written and the world after.\<close>

definition fwrite :: "string \<Rightarrow> nat \<Rightarrow> world \<Rightarrow> nat \<times> world" where
  "fwrite data h w =
     (let k = (case fwrite_script w of [] \<Rightarrow> length data | r # _ \<Rightarrow> min r (length data));
          w1 = w\<lparr>fwrite_script := tl (fwrite_script w)\<rparr>
      in case fs_streams w h of
           None \<Rightarrow> (0, w1)
         | Some path \<Rightarrow>
             (k, w1\<lparr>fs_files := (fs_files w)(path \<mapsto> (case fs_files w path of None \<Rightarrow> [] | Some old \<Rightarrow> old) @ take k data)\<rparr>))"

text \<open>One call of \<open>sendto\<close>: its return value and the world after.\<close>

definition sendto :: "string \<Rightarrow> world \<Rightarrow> int \<times> world" where
  "sendto data w =
     (let r = (case sendto_script w of [] \<Rightarrow> int (length data) | x # _ \<Rightarrow> x);
          w1 = w\<lparr>sendto_script := tl (sendto_script w)\<rparr>
      in (r, if 0 < r then w1\<lparr>wire := wire w @ [take (nat r) data]\<rparr> else w1))"

section \<open>The class\<close>

record file_sent_control =
  in_file_transfer :: bool
  to_receive_count :: int
  out_file_p :: "nat option"
  transfer_start_time :: int
  ip_address :: string

text \<open>
  The socket addresses are kept as the port they carry: \<open>htons\<close> takes the port as
  a 16-bit value.
\<close>

record ChatClass =
  base_port_number :: int
  send_socket :: int
  receive_socket :: int
  send_address_port :: int
  receive_address_port :: int
  udp_inbound_buffer :: string
  send_control :: "file_sent_control list"

text \<open>
  \<open>how_many_are_running\<close> reads the output of \<open>ps x | grep chat\<close>. Its argument
  is what \<open>popen\<close> gave: \<open>None\<close> when it failed, else the records that
  \<open>fgets\<close> returned before the end of the output was met.
\<close>

fun count_records :: "string list \<Rightarrow> int \<Rightarrow> int" where
  "count_records [] entry_count = entry_count"
| "count_records (in_record # rest) entry_count =
     count_records rest (if \<not> strstr in_record ''grep'' then entry_count + 1 else entry_count)"

definition how_many_are_running :: "string list option \<Rightarrow> int" where
  "how_many_are_running popen_handle =
     (case popen_handle of None \<Rightarrow> 0 | Some records \<Rightarrow> count_records records 0)"

text \<open>
  The constructor. \<open>send_fd\<close> and \<open>recv_fd\<close> are what the two calls of
  \<open>socket\<close> return, \<open>bind_result\<close> what \<open>bind\<close> returns. \<open>Inl code\<close>
  is \<open>exit( code )\<close>.
\<close>

definition ChatClass_new ::
  "string list option \<Rightarrow> int \<Rightarrow> int \<Rightarrow> int \<Rightarrow> int \<Rightarrow> world \<Rightarrow> (int + ChatClass) \<times> world" where
  "ChatClass_new popen_handle send_fd recv_fd bind_result this_port_number w =
     (let running_count = how_many_are_running popen_handle;
          transmit_port = (if running_count > 1 then this_port_number else this_port_number + 1);
          receive_port = (if running_count > 1 then this_port_number + 1 else this_port_number)
      in if send_fd < 0 then (Inl ERRORLEVEL_NO_SOCKET, printf Unable_to_acquire_socket w)
         else if recv_fd < 0 then (Inl ERRORLEVEL_NO_SOCKET, printf Unable_to_acquire_socket w)
         else if bind_result = - 1 then (Inl ERRORLEVEL_NO_BIND, printf (Unable_to_bind receive_port) w)
         else (Inr \<lparr>base_port_number = this_port_number,
                    send_socket = send_fd,
                    receive_socket = recv_fd,
                    send_address_port = transmit_port mod 65536,
                    receive_address_port = receive_port mod 65536,
                    udp_inbound_buffer = replicate UDP_IN_BUFFER_SIZE ASCII_NULL_ZERO,
                    send_control = []\<rparr>, w))"

section \<open>Sending\<close>

text \<open>
  The loop of \<open>send_data\<close> over the bytes still to send. It ends because a used-up
  script makes \<open>sendto\<close> take all that is left.
\<close>

function send_data_loop :: "string \<Rightarrow> world \<Rightarrow> world" where
  "send_data_loop the_bytes w =
     (if the_bytes = [] then w
      else (case sendto the_bytes w of (bytes_sent, w1) \<Rightarrow>
              if bytes_sent < 0 then printf Unable_to_send w1
              else send_data_loop (drop (nat bytes_sent) the_bytes) w1))"
  by pat_completeness auto
termination
  by (relation "measure (\<lambda>(the_bytes, w). 2 * length (sendto_script w) + (if the_bytes = [] then 0 else 1))")
     (auto simp: sendto_def Let_def split: list.splits if_splits)

declare send_data_loop.simps [simp del]

text \<open>\<open>send_data( this_data_p, this_size )\<close>, the argument being the \<open>this_size\<close> bytes.\<close>

definition send_data :: "string \<Rightarrow> ChatClass \<Rightarrow> world \<Rightarrow> world" where
  "send_data this_data c w =
     (if send_socket c \<noteq> HANDLE_NOT_VALID \<and> this_data \<noteq> [] then send_data_loop this_data w else w)"

text \<open>\<open>send_text\<close> sends the string and the NUL that ends it.\<close>

definition send_text :: "string \<Rightarrow> ChatClass \<Rightarrow> world \<Rightarrow> world" where
  "send_text this_text c w =
     (if send_socket c \<noteq> HANDLE_NOT_VALID
      then send_data (c_string this_text @ [ASCII_NULL_ZERO]) c w else w)"

text \<open>
  A path argument is the memory from the pointer on. \<open>skipspace\<close> moves the pointer past
  blanks and tabs; the loop that follows overwrites trailing end-of-line characters with NUL.
  On the empty string that loop looks at the byte before the pointer, which the region does
  not hold, and the loop of the model stops there: in \<open>main\<close> that byte belongs to the
  command typed, and in \<open>get_file_request\<close> it lies in a local copy of the header, before
  the name, where nothing reads it afterwards.
\<close>

definition skipspace :: "string \<Rightarrow> string" where
  "skipspace m = dropWhile (\<lambda>ch. ch = CHR 0x09 \<or> ch = CHR 0x20) m"

fun remove_endline_at :: "nat \<Rightarrow> string \<Rightarrow> string" where
  "remove_endline_at 0 m = m"
| "remove_endline_at (Suc k) m =
     (if m ! k = ASCII_CARRIAGE_RETURN \<or> m ! k = ASCII_LINE_FEED
      then remove_endline_at k (m[k := ASCII_NULL_ZERO]) else m)"

text \<open>The first argument is \<open>strlen\<close>, one less after each NUL written at the end.\<close>

definition remove_endline :: "string \<Rightarrow> string" where
  "remove_endline m = remove_endline_at (length (c_string m)) m"

text \<open>\<open>strrchr( path, '/' )\<close> and the step past the delimiter: where the file name starts.\<close>

fun after_last_slash :: "string \<Rightarrow> string" where
  "after_last_slash [] = []"
| "after_last_slash (ch # m) =
     (if ch = ASCII_NULL_ZERO then ch # m
      else if CHR ''/'' \<in> set (c_string m) then after_last_slash m
      else if ch = CHR ''/'' then m
      else ch # m)"

declare after_last_slash.simps [simp del]

text \<open>
  \<open>memcpy( file_header.file_name, file_name_p, sizeof( file_header.file_name ) - 1 )\<close>
  into a field of zeros: one hundred bytes from the pointer, whatever follows the NUL
  included. Bytes beyond the region are taken as zero.
\<close>

definition name_field :: "string \<Rightarrow> string" where
  "name_field m =
     take (XFER_HDR_NAME_SZIE - 1) (m @ replicate (XFER_HDR_NAME_SZIE - 1) ASCII_NULL_ZERO) @ [ASCII_NULL_ZERO]"

definition command_field :: string where
  "command_field = '':xfer:'' @ replicate 5 ASCII_NULL_ZERO"

text \<open>
  The loop of \<open>send_file\<close> over the open file: \<open>out_count\<close> bytes are still to be
  sent and \<open>unread\<close> is what \<open>fread\<close> has not yet read.
\<close>

function send_blocks :: "int \<Rightarrow> string \<Rightarrow> ChatClass \<Rightarrow> world \<Rightarrow> world" where
  "send_blocks out_count unread c w =
     (if out_count > 0 then
        (let block_size = (if out_count > int MAX_OUT_DATA_SIZE then int MAX_OUT_DATA_SIZE else out_count);
             outbound_data = take (nat block_size) unread
         in send_blocks (out_count - block_size) (drop (nat block_size) unread) c
              (send_data outbound_data c w))
      else w)"
  by pat_completeness auto
termination
  by (relation "measure (\<lambda>(out_count, unread, c, w). nat out_count)")
     (auto simp: MAX_OUT_DATA_SIZE_def)

declare send_blocks.simps [simp del]

text \<open>
  \<open>send_file\<close>. \<open>stat\<close> finds the file when the file system holds the path, and its
  \<open>st_size\<close> is the length of the file, narrowed to the \<open>int\<close> \<open>out_count\<close>.
\<close>

definition send_file :: "string \<Rightarrow> bool \<Rightarrow> ChatClass \<Rightarrow> world \<Rightarrow> world" where
  "send_file path_and_name response_to_get_request c w =
     (let m = remove_endline (skipspace path_and_name);
          path = c_string m;
          not_sent = (if response_to_get_request then w else printf (File_not_found path) w)
      in case fs_files w path of
           None \<Rightarrow> not_sent
         | Some content \<Rightarrow>
             (case fopen_rb path w of
                (None, w1) \<Rightarrow> (if response_to_get_request then w1 else printf (File_not_found path) w1)
              | (Some in_file_p, w1) \<Rightarrow>
                  (let out_count = s32 (int (length content));
                       file_name_p = after_last_slash m;
                       file_header = \<lparr>header_command = command_field,
                                      file_name = name_field file_name_p,
                                      file_size = out_count,
                                      trans_type = trans_type_send\<rparr>;
                       w2 = send_data (bytes_of_header file_header) c w1;
                       w3 = printf (Sending (c_string file_name_p) out_count) w2;
                       w4 = send_blocks out_count content c w3
                   in fclose in_file_p w4)))"

text \<open>\<open>get_file\<close> sends one header that asks for the file.\<close>

definition get_file :: "string \<Rightarrow> ChatClass \<Rightarrow> world \<Rightarrow> world" where
  "get_file path_and_name c w =
     (let m = remove_endline (skipspace path_and_name);
          file_header = \<lparr>header_command = command_field,
                         file_name = name_field m,
                         file_size = 0,
                         trans_type = trans_type_get_request\<rparr>
      in printf (File_requested (c_string m)) (send_data (bytes_of_header file_header) c w))"

definition get_file_request :: "string \<Rightarrow> ChatClass \<Rightarrow> world \<Rightarrow> world" where
  "get_file_request this_data c w =
     send_file (file_name_region (header_of_bytes this_data)) True c w"

section \<open>Receiving\<close>

text \<open>
  \<open>find_send_control\<close>: the index of the first entry with the address, \<open>None\<close>
  for \<open>CONTROL_NOT_FOUND\<close>. The address is the text \<open>inet_ntoa\<close> gives.
\<close>

fun find_control :: "file_sent_control list \<Rightarrow> string \<Rightarrow> nat option" where
  "find_control [] ip = None"
| "find_control (b # bs) ip =
     (if ip_address b = ip then Some 0 else map_option Suc (find_control bs ip))"

definition find_send_control :: "ChatClass \<Rightarrow> string \<Rightarrow> nat option" where
  "find_send_control c ip = find_control (send_control c) ip"

text \<open>
  The write loop of \<open>receive_file_block\<close>: what is left unwritten when it ends, and the
  world after. It ends because a used-up script makes \<open>fwrite\<close> write all that is left.
\<close>

function write_block :: "string \<Rightarrow> nat \<Rightarrow> nat \<Rightarrow> world \<Rightarrow> string \<times> world" where
  "write_block this_data write_try_count out_file w =
     (if this_data \<noteq> [] \<and> write_try_count < MAX_FILE_WRITE_RETRY_COUNT then
        (case fwrite this_data out_file w of (write_result, w1) \<Rightarrow>
           if write_result > 0 then write_block (drop write_result this_data) 0 out_file w1
           else write_block this_data (Suc write_try_count) out_file (sleep 1 w1))
      else (this_data, w))"
  by pat_completeness auto
termination
  by (relation "measures [\<lambda>(this_data, write_try_count, out_file, w).
                             length (fwrite_script w) + length this_data,
                           \<lambda>(this_data, write_try_count, out_file, w).
                             MAX_FILE_WRITE_RETRY_COUNT - write_try_count]")
     (auto simp: fwrite_def sleep_def Let_def split: list.splits option.splits if_splits)

declare write_block.simps [simp del]

definition receive_file_block :: "string \<Rightarrow> string \<Rightarrow> ChatClass \<Rightarrow> world \<Rightarrow> bool \<times> ChatClass \<times> world" where
  "receive_file_block this_data ip c w =
     (case find_send_control c ip of
        None \<Rightarrow> (False, c, w)
      | Some control_index \<Rightarrow>
          (let b = send_control c ! control_index
           in case out_file_p b of
                None \<Rightarrow> (False, c, w)
              | Some out_file \<Rightarrow>
                  if in_file_transfer b then
                    (let orig_block_size = int (length this_data);
                         w1 = snd (write_block this_data 0 out_file w);
                         b1 = b\<lparr>transfer_start_time := clock w1\<rparr>;
                         b2 = (if to_receive_count b1 \<ge> orig_block_size
                               then b1\<lparr>to_receive_count := to_receive_count b1 - orig_block_size\<rparr>
                               else b1)
                     in if to_receive_count b2 = 0
                        then (True, c\<lparr>send_control := erase control_index (send_control c)\<rparr>, fclose out_file w1)
                        else (True, c\<lparr>send_control := (send_control c)[control_index := b2]\<rparr>, w1))
                  else (False, c, w)))"

text \<open>
  The loop of \<open>receive_file_start\<close> that looks for a name no file has yet. The counter
  is incremented by the loop condition, before the body runs.
\<close>

function choose_name :: "string \<Rightarrow> nat \<Rightarrow> world \<Rightarrow> string option \<times> world" where
  "choose_name requested name_try_count w =
     (if name_try_count < MAX_FILE_OVERWRITE_CHECK then
        (let name_try_count = Suc name_try_count;
             out_file_name = (if name_try_count > 0 then requested @ decimal name_try_count else requested)
         in case fopen_rb out_file_name w of
              (None, w1) \<Rightarrow> (Some out_file_name, w1)
            | (Some f, w1) \<Rightarrow> choose_name requested name_try_count (fclose f w1))
      else (None, w))"
  by pat_completeness auto
termination
  by (relation "measure (\<lambda>(requested, name_try_count, w). MAX_FILE_OVERWRITE_CHECK - name_try_count)")
     auto

declare choose_name.simps [simp del]

text \<open>
  The first part of \<open>receive_file_start\<close>: an entry that the vector holds for the sender
  is erased, its output file closed before when the entry is receiving.
\<close>

definition abort_previous :: "string \<Rightarrow> ChatClass \<Rightarrow> world \<Rightarrow> ChatClass \<times> world" where
  "abort_previous ip c w =
     (case find_send_control c ip of
        None \<Rightarrow> (c, w)
      | Some control_index \<Rightarrow>
          (let b = send_control c ! control_index;
               w1 = (case out_file_p b of
                       None \<Rightarrow> w
                     | Some out_file \<Rightarrow>
                         if in_file_transfer b then printf (Aborted_previous ip) (fclose out_file w) else w)
           in (c\<lparr>send_control := erase control_index (send_control c)\<rparr>, w1)))"

text \<open>
  \<open>receive_file_start\<close>. \<open>this_data\<close> is the memory at the pointer (the receive buffer),
  \<open>this_byte_size\<close> the count of bytes received; what follows the header is a signed
  difference, as in the source.
\<close>

definition receive_file_start :: "string \<Rightarrow> int \<Rightarrow> string \<Rightarrow> ChatClass \<Rightarrow> world \<Rightarrow> ChatClass \<times> world" where
  "receive_file_start this_data this_byte_size ip c w =
     (case abort_previous ip c w of (c1, w1) \<Rightarrow>
        (let file_header = header_of_bytes this_data
         in if file_size file_header = 0 then (c1, w1)
            else (case choose_name (c_string (file_name_region file_header)) 0 w1 of
                    (None, w2) \<Rightarrow> (c1, w2)
                  | (Some out_file_name, w2) \<Rightarrow>
                      (case fopen_wb out_file_name w2 of
                         (None, w3) \<Rightarrow> (c1, w3)
                       | (Some out_file, w3) \<Rightarrow>
                           (let this_control = \<lparr>in_file_transfer = True,
                                                 to_receive_count = file_size file_header,
                                                 out_file_p = Some out_file,
                                                 transfer_start_time = clock w2,
                                                 ip_address = ip\<rparr>;
                                w4 = printf (Inbound_file out_file_name (file_size file_header) ip) w3;
                                c2 = c1\<lparr>send_control := send_control c1 @ [this_control]\<rparr>;
                                following = this_byte_size - int sizeof_file_header
                            in if following > 0
                               then snd (receive_file_block
                                           (take (nat following) (drop sizeof_file_header this_data)) ip c2 w4)
                               else (c2, w4))))))"

definition file_transfer :: "string \<Rightarrow> int \<Rightarrow> string \<Rightarrow> ChatClass \<Rightarrow> world \<Rightarrow> ChatClass \<times> world" where
  "file_transfer this_data this_byte_size ip c w =
     (let file_header = header_of_bytes this_data
      in if trans_type file_header = trans_type_send
         then receive_file_start this_data this_byte_size ip c w
         else if trans_type file_header = trans_type_get_request
         then (c, get_file_request this_data c w)
         else (c, w))"

text \<open>
  \<open>read_data\<close>. The argument \<open>frame\<close> is what \<open>recvfrom\<close> finds: nothing
  (it returns \<open>-1\<close> on the non-blocking socket), or a datagram and the address of its
  sender. \<open>recvfrom\<close> stores at most as many bytes as the buffer has and leaves the rest
  of the buffer as it was.
\<close>

definition recvfrom :: "(string \<times> string) option \<Rightarrow> ChatClass \<Rightarrow> int \<times> string \<times> ChatClass" where
  "recvfrom frame c =
     (case frame of
        None \<Rightarrow> (- 1, [], c)
      | Some (datagram, ip) \<Rightarrow>
          (let stored = take UDP_IN_BUFFER_SIZE datagram
           in (int (length stored), ip,
               c\<lparr>udp_inbound_buffer := stored @ drop (length stored) (udp_inbound_buffer c)\<rparr>)))"

definition read_data :: "(string \<times> string) option \<Rightarrow> ChatClass \<Rightarrow> world \<Rightarrow> int \<times> ChatClass \<times> world" where
  "read_data frame c w =
     (case (if receive_socket c \<noteq> HANDLE_NOT_VALID then recvfrom frame c else (0, [], c)) of
        (read_count, ip, c1) \<Rightarrow>
          if read_count > 0 then
            (if take 6 (udp_inbound_buffer c1) = '':xfer:''
             then (case file_transfer (udp_inbound_buffer c1) read_count ip c1 w of
                     (c2, w2) \<Rightarrow> (0, c2, w2))
             else (case receive_file_block (take (nat read_count) (udp_inbound_buffer c1)) ip c1 w of
                     (True, c2, w2) \<Rightarrow> (0, c2, w2)
                   | (False, c2, w2) \<Rightarrow> (read_count, c2, w2)))
          else (read_count, c1, w))"

section \<open>The timeout sweep\<close>

text \<open>The \<open>for\<close> loop of \<open>transfer_timed_out\<close>: the first entry whose timer has run out.\<close>

fun first_timed_out :: "file_sent_control list \<Rightarrow> int \<Rightarrow> nat option" where
  "first_timed_out [] current_time = None"
| "first_timed_out (b # bs) current_time =
     (if transfer_start_time b > 0 \<and> current_time \<ge> transfer_start_time b + 10 then Some 0
      else map_option Suc (first_timed_out bs current_time))"

function restart_search :: "bool \<Rightarrow> ChatClass \<Rightarrow> world \<Rightarrow> bool \<times> ChatClass \<times> world" where
  "restart_search any_timeouts c w =
     (case first_timed_out (send_control c) (clock w) of
        None \<Rightarrow> (any_timeouts, c, w)
      | Some this_index \<Rightarrow>
          (let b = send_control c ! this_index;
               w1 = (case out_file_p b of
                       None \<Rightarrow> w
                     | Some out_file \<Rightarrow> printf Transfer_timed_out (fclose out_file w))
           in restart_search True (c\<lparr>send_control := erase this_index (send_control c)\<rparr>) w1))"
  by pat_completeness auto
termination
proof (relation "measure (\<lambda>(any_timeouts, c, w). length (send_control c))")
  show "wf (measure (\<lambda>(any_timeouts, c, w). length (send_control c)))"
    by simp
next
  fix any_timeouts :: bool and c :: ChatClass and w :: world and this_index b w1
  assume found: "first_timed_out (send_control c) (clock w) = Some this_index"
  have bound: "first_timed_out bs t = Some i \<Longrightarrow> i < length bs" for bs t i
    by (induction bs arbitrary: i) (auto split: if_splits)
  from bound [OF found]
  show "((True, c\<lparr>send_control := erase this_index (send_control c)\<rparr>, w1), (any_timeouts, c, w))
        \<in> measure (\<lambda>(any_timeouts, c, w). length (send_control c))"
    by (simp add: erase_def)
qed

declare restart_search.simps [simp del]

definition transfer_timed_out :: "ChatClass \<Rightarrow> world \<Rightarrow> bool \<times> ChatClass \<times> world" where
  "transfer_timed_out c w = restart_search False c w"

text \<open>
  The test that \<open>receive_file_block\<close> makes before it takes a block: the sender has an
  entry in the vector, and that entry is receiving into an open file.
\<close>

definition receiving_from :: "ChatClass \<Rightarrow> string \<Rightarrow> bool" where
  "receiving_from c ip =
     (case find_send_control c ip of
        None \<Rightarrow> False
      | Some control_index \<Rightarrow>
          in_file_transfer (send_control c ! control_index) \<and>
          out_file_p (send_control c ! control_index) \<noteq> None)"

text \<open>The receive buffer after \<open>recvfrom\<close> has stored a datagram in it.\<close>

definition stored_in :: "string \<Rightarrow> string \<Rightarrow> string" where
  "stored_in datagram buffer =
     take UDP_IN_BUFFER_SIZE datagram @ drop (length (take UDP_IN_BUFFER_SIZE datagram)) buffer"

section \<open>Reachable states\<close>

text \<open>
  What the rest of the system may do to the world between two calls: time does not run
  backwards, and the open \<open>FILE\<close> objects of the process are its own. Files and the
  scripted behaviour of the disk and of the socket may change in any way.
\<close>

definition environment :: "world \<Rightarrow> world \<Rightarrow> bool" where
  "environment w w' =
     (fs_streams w' = fs_streams w \<and> fs_next w' = fs_next w \<and> clock w \<le> clock w' \<and>
      wire w' = wire w \<and> console w' = console w)"

text \<open>
  The states of an object and its world that a program can reach: it constructs the object
  at a time after the epoch and then calls the public methods, in any order and with any
  arguments and inbound frames; it may write into the public receive buffer (as
  \<open>main\<close> does to end the text with a NUL); the environment moves in between.
\<close>

inductive reachable :: "ChatClass \<Rightarrow> world \<Rightarrow> bool" where
  constructed:
    "ChatClass_new popen_handle send_fd recv_fd bind_result port w = (Inr c, w') \<Longrightarrow>
     0 < clock w \<Longrightarrow> reachable c w'"
| data_read:
    "reachable c w \<Longrightarrow> read_data frame c w = (read_count, c', w') \<Longrightarrow> reachable c' w'"
| timeouts_checked:
    "reachable c w \<Longrightarrow> transfer_timed_out c w = (any_timeouts, c', w') \<Longrightarrow> reachable c' w'"
| text_sent:
    "reachable c w \<Longrightarrow> reachable c (send_text this_text c w)"
| file_sent:
    "reachable c w \<Longrightarrow> reachable c (send_file path_and_name response_to_get_request c w)"
| file_requested:
    "reachable c w \<Longrightarrow> reachable c (get_file path_and_name c w)"
| buffer_written:
    "reachable c w \<Longrightarrow> length buffer = length (udp_inbound_buffer c) \<Longrightarrow>
     reachable (c\<lparr>udp_inbound_buffer := buffer\<rparr>) w"
| world_moved:
    "reachable c w \<Longrightarrow> environment w w' \<Longrightarrow> reachable c w'"

section \<open>Concrete scenarios\<close>

text \<open>
  A world with no files, no open stream, a disk and a socket that take every request,
  and a clock in June 2018.
\<close>

definition quiet_world :: world where
  "quiet_world =
     \<lparr>fs_files = Map.empty, fs_streams = Map.empty, fs_next = 0, fopen_wb_fails = (\<lambda>path. False),
      fwrite_script = [], sendto_script = [], clock = 1530000000, wire = [], console = []\<rparr>"

text \<open>The object that the constructor builds on port 5777 when no other instance runs.\<close>

definition first_chat :: ChatClass where
  "first_chat =
     \<lparr>base_port_number = 5777, send_socket = 3, receive_socket = 4,
      send_address_port = 5778, receive_address_port = 5777,
      udp_inbound_buffer = replicate UDP_IN_BUFFER_SIZE ASCII_NULL_ZERO, send_control = []\<rparr>"

text \<open>What \<open>ps x | grep chat\<close> prints for the first instance on a host.\<close>

definition ps_first :: "string list" where
  "ps_first =
     [''  812 pts/0    S+     0:00 ./chat'',
      ''  813 pts/0    S+     0:00 sh -c ps x | grep chat'',
      ''  815 pts/0    S+     0:00 grep chat'']"

text \<open>A file of 2500 bytes to send, and a file of two gibibytes.\<close>

definition sample_file :: string where
  "sample_file = replicate 2500 (CHR ''n'')"

definition sample_world :: world where
  "sample_world = quiet_world\<lparr>fs_files := [''notes.bin'' \<mapsto> sample_file]\<rparr>"

definition huge :: string where
  "huge = replicate (2 ^ 31) (CHR ''h'')"

definition huge_world :: world where
  "huge_world = quiet_world\<lparr>fs_files := [''huge.bin'' \<mapsto> huge]\<rparr>"

text \<open>
  A peer, an object that is receiving a file from it with so many bytes still to come,
  the world in which the output file of that transfer is open and empty, and the same
  world with a disk that writes nothing for twenty calls.
\<close>

definition peer :: string where
  "peer = ''192.168.1.7''"

definition receiving_chat :: "int \<Rightarrow> ChatClass" where
  "receiving_chat remaining =
     first_chat\<lparr>send_control :=
       [\<lparr>in_file_transfer = True, to_receive_count = remaining, out_file_p = Some 0,
         transfer_start_time = 1530000000, ip_address = peer\<rparr>]\<rparr>"

definition receiving_world :: world where
  "receiving_world =
     quiet_world\<lparr>fs_files := [''report.txt1'' \<mapsto> []], fs_streams := [0 \<mapsto> ''report.txt1''],
                  fs_next := 1\<rparr>"

definition stalled_world :: world where
  "stalled_world = receiving_world\<lparr>fwrite_script := replicate 20 0\<rparr>"

text \<open>The frame that \<open>send_file\<close> sends first for a file \<open>report.txt\<close> of so many bytes.\<close>

definition report_frame :: "int \<Rightarrow> string" where
  "report_frame size_of_file =
     bytes_of_header \<lparr>header_command = command_field, file_name = name_field ''report.txt'',
                      file_size = size_of_file, trans_type = trans_type_send\<rparr>"

text \<open>The first object after it has read a header for an empty \<open>report.txt\<close>.\<close>

definition idle_chat :: ChatClass where
  "idle_chat =
     first_chat\<lparr>udp_inbound_buffer := report_frame 0 @ drop 120 (udp_inbound_buffer first_chat)\<rparr>"

text \<open>
  The object in the middle of a transfer of five bytes, with the header that started the
  transfer still in its receive buffer.
\<close>

definition started_chat :: ChatClass where
  "started_chat =
     (receiving_chat 5)\<lparr>udp_inbound_buffer :=
        report_frame 5 @ drop 120 (udp_inbound_buffer first_chat)\<rparr>"

text \<open>The world after the header for \<open>report.txt\<close> of five bytes has been read.\<close>

definition started_world :: world where
  "started_world = receiving_world\<lparr>console := [Inbound_file ''report.txt1'' 5 peer]\<rparr>"

section \<open>Port roles\<close>

lemma count_first: "how_many_are_running (Some ps_first) = 1"
  by (simp add: how_many_are_running_def ps_first_def)

lemma first_chat_built:
  "ChatClass_new (Some ps_first) 3 4 0 5777 quiet_world = (Inr first_chat, quiet_world)"
  by (simp add: ChatClass_new_def count_first first_chat_def)

text \<open>
  C9, as the constructor has it. An instance that counts more than one running chat process
  (a later instance) sends on the base port and receives on the base port plus one. An
  instance that counts itself only (the first on the host) sends on the base port plus one
  and receives on the base port. The address carries the port as a 16-bit value.
\<close>

theorem port_roles:
  "ChatClass_new popen_handle send_fd recv_fd bind_result port w = (Inr c, w') \<Longrightarrow>
     send_address_port c =
       (if how_many_are_running popen_handle > 1 then port else port + 1) mod 65536 \<and>
     receive_address_port c =
       (if how_many_are_running popen_handle > 1 then port + 1 else port) mod 65536"
  by (auto simp: ChatClass_new_def Let_def split: if_splits)

theorem port_roles_witness:
  "ChatClass_new (Some ps_first) 3 4 0 5777 quiet_world = (Inr first_chat, quiet_world) \<and>
   send_address_port first_chat =
     (if how_many_are_running (Some ps_first) > 1 then 5777 else 5777 + 1) mod 65536 \<and>
   receive_address_port first_chat =
     (if how_many_are_running (Some ps_first) > 1 then 5777 + 1 else 5777) mod 65536"
  using port_roles [OF first_chat_built] first_chat_built by simp

text \<open>
  C9 as the specification words it fails: the first instance on base port 5777 does not
  send on 5777 and receive on 5778, it sends on 5778 and receives on 5777.
\<close>

theorem port_roles_first_instance:
  "fst (ChatClass_new (Some ps_first) 3 4 0 5777 quiet_world) = Inr first_chat \<and>
   send_address_port first_chat = 5777 + 1 \<and> receive_address_port first_chat = 5777 \<and>
   \<not> (send_address_port first_chat = 5777 \<and> receive_address_port first_chat = 5777 + 1)"
  by (simp add: first_chat_built) (simp add: first_chat_def)

section \<open>Sending a file in blocks\<close>

lemma sendto_taken:
  "sendto_script w = [] \<Longrightarrow> the_bytes \<noteq> [] \<Longrightarrow>
     sendto the_bytes w = (int (length the_bytes), w\<lparr>sendto_script := [], wire := wire w @ [the_bytes]\<rparr>)"
  by (simp add: sendto_def)

lemma send_data_loop_taken:
  assumes "sendto_script w = []" and "the_bytes \<noteq> []"
  shows "send_data_loop the_bytes w = w\<lparr>sendto_script := [], wire := wire w @ [the_bytes]\<rparr>"
proof -
  have "send_data_loop the_bytes w =
          send_data_loop [] (w\<lparr>sendto_script := [], wire := wire w @ [the_bytes]\<rparr>)"
    using assms by (subst send_data_loop.simps) (simp add: sendto_taken)
  then show ?thesis
    by (simp add: send_data_loop.simps [of "[]"])
qed

lemma send_data_taken:
  assumes "send_socket c \<noteq> HANDLE_NOT_VALID" and "sendto_script w = []"
  shows "wire (send_data this_data c w) = wire w @ (if this_data = [] then [] else [this_data])"
    and "sendto_script (send_data this_data c w) = []"
  using assms by (simp_all add: send_data_def send_data_loop_taken)

lemma blocks_step:
  assumes "0 < C" and "0 < length unread"
  shows "map (\<lambda>i. take C (drop (i * C) unread)) [0..<(length unread + C - 1) div C] =
         take C unread #
         map (\<lambda>i. take C (drop (i * C) (drop C unread))) [0..<(length (drop C unread) + C - 1) div C]"
proof -
  let ?n = "length unread"
  have count: "(?n + C - 1) div C = Suc ((length (drop C unread) + C - 1) div C)"
  proof (cases "C \<le> ?n")
    case True
    then have "?n + C - 1 = (?n - C + C - 1) + C"
      using assms by simp
    then have "(?n + C - 1) div C = (?n - C + C - 1) div C + 1"
      using assms by (metis div_add_self2 less_numeral_extra(3))
    then show ?thesis by simp
  next
    case False
    have "C * 1 \<le> ?n + C - 1" and "?n + C - 1 < C * Suc 1"
      using False assms by (cases unread; simp)+
    then have "(?n + C - 1) div C = 1"
      by (rule div_nat_eqI)
    with False show ?thesis by simp
  qed
  have from_zero: "[0..<Suc k] = 0 # map Suc [0..<k]" for k
    by (simp add: upt_conv_Cons map_Suc_upt del: upt_Suc)
  show ?thesis
    unfolding count from_zero by (simp add: comp_def add.commute)
qed

lemma send_blocks_wire:
  assumes "send_socket c \<noteq> HANDLE_NOT_VALID" and "sendto_script w = []"
  shows "wire (send_blocks (int (length unread)) unread c w) =
         wire w @ map (\<lambda>i. take MAX_OUT_DATA_SIZE (drop (i * MAX_OUT_DATA_SIZE) unread))
                      [0..<(length unread + MAX_OUT_DATA_SIZE - 1) div MAX_OUT_DATA_SIZE]"
  using assms(2)
proof (induction "length unread" arbitrary: unread w rule: less_induct)
  case less
  show ?case
  proof (cases "unread = []")
    case True
    then show ?thesis
      by (simp add: send_blocks.simps [of 0] MAX_OUT_DATA_SIZE_def)
  next
    case False
    let ?C = MAX_OUT_DATA_SIZE
    have pos: "0 < ?C" by (simp add: MAX_OUT_DATA_SIZE_def)
    let ?w1 = "send_data (take ?C unread) c w"
    have size: "(if int (length unread) > int ?C then int ?C else int (length unread)) = int (min ?C (length unread))"
      by simp
    have step: "send_blocks (int (length unread)) unread c w =
                send_blocks (int (length (drop ?C unread))) (drop ?C unread) c ?w1"
      using False
      apply (subst send_blocks.simps)
      apply (simp only: size Let_def)
      apply (auto simp: min_def)
      done
    have shorter: "length (drop ?C unread) < length unread"
      using False pos by simp
    have quiet: "sendto_script ?w1 = []"
      using assms(1) less.prems by (rule send_data_taken)
    have first: "wire ?w1 = wire w @ [take ?C unread]"
      using False pos send_data_taken(1) [OF assms(1) less.prems, of "take ?C unread"] by simp
    have nonempty: "0 < length unread"
      using False by simp
    have "wire (send_blocks (int (length unread)) unread c w) =
          wire ?w1 @ map (\<lambda>i. take ?C (drop (i * ?C) (drop ?C unread)))
                        [0..<(length (drop ?C unread) + ?C - 1) div ?C]"
      using less.hyps [OF shorter quiet] by (simp only: step)
    then show ?thesis
      by (simp only: first blocks_step [OF pos nonempty] append_assoc append_Cons append_Nil)
  qed
qed


lemma blocks_concat:
  "0 < C \<Longrightarrow>
     concat (map (\<lambda>i. take C (drop (i * C) unread)) [0..<(length unread + C - 1) div C]) = unread"
proof (induction "length unread" arbitrary: unread rule: less_induct)
  case less
  show ?case
  proof (cases "unread = []")
    case True
    with less.prems show ?thesis by simp
  next
    case False
    then have nonempty: "0 < length unread" by simp
    have "length (drop C unread) < length unread"
      using False less.prems by simp
    from less.hyps [OF this less.prems] show ?thesis
      by (simp only: blocks_step [OF less.prems nonempty] concat.simps list.map append_take_drop_id)
  qed
qed

lemma block_length:
  fixes C n i :: nat
  assumes "0 < C" and "i < (n + C - 1) div C"
  shows "min C (n - i * C) = (if (i + 1) * C \<le> n then C else n mod C)"
proof -
  have "Suc i \<le> (n + C - 1) div C"
    using assms(2) by simp
  then have "Suc i * C \<le> n + C - 1"
    using assms(1) by (simp add: less_eq_div_iff_mult_less_eq)
  then have below: "i * C < n"
    using assms(1) by (cases n) auto
  show ?thesis
  proof (cases "(i + 1) * C \<le> n")
    case True
    then show ?thesis by auto
  next
    case False
    have "C * i \<le> n" and "n < C * Suc i"
      using below False by (simp_all add: mult.commute)
    then have "n div C = i"
      by (rule div_nat_eqI)
    then have "n mod C = n - i * C"
      by (metis minus_mult_div_eq_mod mult.commute)
    with False show ?thesis by auto
  qed
qed

lemma length_command_field: "length command_field = 11"
  by (simp add: command_field_def)

lemma length_name_field: "length (name_field m) = 101"
  by (simp add: name_field_def XFER_HDR_NAME_SZIE_def)

lemma length_int_bytes: "length (int_bytes n) = 4"
  by (simp add: int_bytes_def)

lemma length_bytes_of_header:
  "length (bytes_of_header \<lparr>header_command = command_field, file_name = name_field m,
                            file_size = n, trans_type = t\<rparr>) = sizeof_file_header"
  by (simp add: bytes_of_header_def length_command_field length_name_field length_int_bytes
      sizeof_file_header_def)

lemma s32_length:
  assumes "length content < 2 ^ 31"
  shows "s32 (int (length content)) = int (length content)"
proof -
  have "- (2 ^ 31) \<le> int (length content)"
    by simp
  moreover have "int (length content) < 2 ^ 31"
    using assms by (metis of_nat_less_iff of_nat_numeral of_nat_power)
  ultimately show ?thesis
    unfolding s32_def by (rule signed_take_bit_int_eq_self)
qed

lemma header_size_nonempty: "length xs = sizeof_file_header \<Longrightarrow> xs \<noteq> []"
proof
  assume "length xs = sizeof_file_header" and "xs = []"
  then have "sizeof_file_header = 0" by simp
  then show False by (simp add: sizeof_file_header_def)
qed

lemma send_blocks_fold:
  "send_blocks (int (length unread)) unread c w =
     foldl (\<lambda>w block. send_data block c w) w
       (map (\<lambda>i. take MAX_OUT_DATA_SIZE (drop (i * MAX_OUT_DATA_SIZE) unread))
            [0..<(length unread + MAX_OUT_DATA_SIZE - 1) div MAX_OUT_DATA_SIZE])"
proof (induction "length unread" arbitrary: unread w rule: less_induct)
  case less
  show ?case
  proof (cases "unread = []")
    case True
    then show ?thesis
      by (simp add: send_blocks.simps [of 0] MAX_OUT_DATA_SIZE_def)
  next
    case False
    let ?C = MAX_OUT_DATA_SIZE
    have pos: "0 < ?C" by (simp add: MAX_OUT_DATA_SIZE_def)
    let ?w1 = "send_data (take ?C unread) c w"
    have size: "(if int (length unread) > int ?C then int ?C else int (length unread)) = int (min ?C (length unread))"
      by simp
    have step: "send_blocks (int (length unread)) unread c w =
                send_blocks (int (length (drop ?C unread))) (drop ?C unread) c ?w1"
      using False
      apply (subst send_blocks.simps)
      apply (simp only: size Let_def)
      apply (auto simp: min_def)
      done
    have shorter: "length (drop ?C unread) < length unread"
      using False pos by simp
    have nonempty: "0 < length unread"
      using False by simp
    show ?thesis
      by (simp only: step less.hyps [OF shorter] blocks_step [OF pos nonempty] foldl_Cons)
  qed
qed

text \<open>
  C1, for a file of fewer than \<open>2 ^ 31\<close> bytes. \<open>send_file\<close> hands to
  \<open>send_data\<close> one header frame of 120 bytes and then the blocks of the file in file
  order, whatever the socket does with them: block \<open>i\<close> is the
  \<open>MAX_OUT_DATA_SIZE\<close> bytes from offset \<open>i * MAX_OUT_DATA_SIZE\<close>, there are
  \<open>ceil (N / MAX_OUT_DATA_SIZE)\<close> of them, each of \<open>MAX_OUT_DATA_SIZE\<close> bytes but
  a last one of \<open>N mod MAX_OUT_DATA_SIZE\<close> when that is not zero, and together they are
  the file. On an open socket where every \<open>sendto\<close> takes the datagram whole, these
  frames are the datagrams put on the wire, in that order.
\<close>

theorem send_file_chunks:
  assumes "fs_files w (c_string (remove_endline (skipspace path_and_name))) = Some content"
    and "length content < 2 ^ 31"
  shows
    "(let m = remove_endline (skipspace path_and_name);
          file_header = \<lparr>header_command = command_field,
                          file_name = name_field (after_last_slash m),
                          file_size = int (length content),
                          trans_type = trans_type_send\<rparr>;
          chunk = (\<lambda>i. take MAX_OUT_DATA_SIZE (drop (i * MAX_OUT_DATA_SIZE) content));
          chunk_count = (length content + MAX_OUT_DATA_SIZE - 1) div MAX_OUT_DATA_SIZE;
          announced = printf (Sending (c_string (after_last_slash m)) (int (length content)))
                        (send_data (bytes_of_header file_header) c (snd (fopen_rb (c_string m) w)))
      in send_file path_and_name response_to_get_request c w =
           fclose (fs_next w)
             (foldl (\<lambda>w block. send_data block c w) announced (map chunk [0..<chunk_count])) \<and>
         length (bytes_of_header file_header) = sizeof_file_header \<and>
         concat (map chunk [0..<chunk_count]) = content \<and>
         (\<forall>i<chunk_count. length (chunk i) =
            (if (i + 1) * MAX_OUT_DATA_SIZE \<le> length content then MAX_OUT_DATA_SIZE
             else length content mod MAX_OUT_DATA_SIZE)) \<and>
         (send_socket c \<noteq> HANDLE_NOT_VALID \<and> sendto_script w = [] \<longrightarrow>
            wire (send_file path_and_name response_to_get_request c w) =
              wire w @ bytes_of_header file_header # map chunk [0..<chunk_count]))"
proof -
  let ?m = "remove_endline (skipspace path_and_name)"
  let ?hdr = "\<lparr>header_command = command_field, file_name = name_field (after_last_slash ?m),
               file_size = int (length content), trans_type = trans_type_send\<rparr>"
  let ?C = MAX_OUT_DATA_SIZE
  let ?chunks = "map (\<lambda>i. take ?C (drop (i * ?C) content)) [0..<(length content + ?C - 1) div ?C]"
  have pos: "0 < ?C" by (simp add: MAX_OUT_DATA_SIZE_def)
  have narrow: "s32 (int (length content)) = int (length content)"
    using assms(2) by (rule s32_length)
  have frame: "length (bytes_of_header ?hdr) = sizeof_file_header"
    by (rule length_bytes_of_header)
  then have frame_nonempty: "bytes_of_header ?hdr \<noteq> []"
    by (rule header_size_nonempty)
  let ?w1 = "w\<lparr>fs_streams := (fs_streams w)(fs_next w \<mapsto> c_string ?m), fs_next := Suc (fs_next w)\<rparr>"
  have opened: "fopen_rb (c_string ?m) w = (Some (fs_next w), ?w1)"
    using assms(1) by (simp add: fopen_rb_def)
  let ?w2 = "send_data (bytes_of_header ?hdr) c ?w1"
  let ?w3 = "printf (Sending (c_string (after_last_slash ?m)) (int (length content))) ?w2"
  have sent: "send_file path_and_name response_to_get_request c w =
              fclose (fs_next w) (send_blocks (int (length content)) content c ?w3)"
    using assms(1) by (simp add: send_file_def Let_def opened narrow)
  have calls: "send_file path_and_name response_to_get_request c w =
               fclose (fs_next w) (foldl (\<lambda>w block. send_data block c w)
                 (printf (Sending (c_string (after_last_slash ?m)) (int (length content)))
                    (send_data (bytes_of_header ?hdr) c (snd (fopen_rb (c_string ?m) w))))
                 ?chunks)"
    unfolding sent send_blocks_fold opened by simp
  have whole: "concat ?chunks = content"
    using pos by (rule blocks_concat)
  have sizes: "length (take ?C (drop (i * ?C) content)) =
                 (if (i + 1) * ?C \<le> length content then ?C else length content mod ?C)"
    if "i < (length content + ?C - 1) div ?C" for i
    using block_length [OF pos that] by simp
  have on_wire: "wire (send_file path_and_name response_to_get_request c w) =
                 wire w @ bytes_of_header ?hdr # ?chunks"
    if socket: "send_socket c \<noteq> HANDLE_NOT_VALID" and quiet: "sendto_script w = []"
  proof -
    have quiet1: "sendto_script ?w1 = []" and wire1: "wire ?w1 = wire w"
      using quiet by simp_all
    have quiet2: "sendto_script ?w2 = []"
      using socket quiet1 by (rule send_data_taken)
    have wire2: "wire ?w2 = wire w @ [bytes_of_header ?hdr]"
      using send_data_taken(1) [OF socket quiet1, of "bytes_of_header ?hdr"] frame_nonempty wire1
      by simp
    have quiet3: "sendto_script ?w3 = []" and wire3: "wire ?w3 = wire ?w2"
      using quiet2 by (simp_all add: printf_def)
    show ?thesis
      by (simp add: sent fclose_def send_blocks_wire [OF socket quiet3] wire3 wire2)
  qed
  show ?thesis
    unfolding Let_def
    using calls frame whole sizes on_wire by blast
qed

lemma notes_path: "remove_endline (skipspace ''notes.bin'') = ''notes.bin''"
  by (simp add: remove_endline_def skipspace_def c_string_def ASCII_NULL_ZERO_def
      ASCII_CARRIAGE_RETURN_def ASCII_LINE_FEED_def)

lemma huge_path: "remove_endline (skipspace ''huge.bin'') = ''huge.bin''"
  by (simp add: remove_endline_def skipspace_def c_string_def ASCII_NULL_ZERO_def
      ASCII_CARRIAGE_RETURN_def ASCII_LINE_FEED_def)

lemma plain_c_string: "c_string ''notes.bin'' = ''notes.bin''" "c_string ''huge.bin'' = ''huge.bin''"
  by (simp_all add: c_string_def ASCII_NULL_ZERO_def)

text \<open>A file of 2500 bytes goes out as a header and blocks of 1024, 1024 and 452 bytes.\<close>

theorem send_file_chunks_witness:
  "map length (wire (send_file ''notes.bin'' False first_chat sample_world)) = [120, 1024, 1024, 452] \<and>
   concat (tl (wire (send_file ''notes.bin'' False first_chat sample_world))) = sample_file \<and>
   length sample_file = 2500"
proof -
  have socket: "send_socket first_chat \<noteq> HANDLE_NOT_VALID"
    by (simp add: first_chat_def HANDLE_NOT_VALID_def)
  have quiet: "sendto_script sample_world = []"
    by (simp add: sample_world_def quiet_world_def)
  have found: "fs_files sample_world (c_string (remove_endline (skipspace ''notes.bin''))) = Some sample_file"
    by (simp add: notes_path plain_c_string sample_world_def)
  have small: "length sample_file < 2 ^ 31"
    by (simp add: sample_file_def)
  have count: "(length sample_file + MAX_OUT_DATA_SIZE - 1) div MAX_OUT_DATA_SIZE = 3"
    by (simp add: sample_file_def MAX_OUT_DATA_SIZE_def)
  have three: "[0..<3] = [0, 1, 2]"
    by (simp add: upt_rec)
  have empty: "wire sample_world = []"
    by (simp add: sample_world_def quiet_world_def)
  from send_file_chunks [where c = first_chat and response_to_get_request = False, OF found small]
  have "wire (send_file ''notes.bin'' False first_chat sample_world) =
        wire sample_world @
        bytes_of_header \<lparr>header_command = command_field,
                         file_name = name_field (after_last_slash (remove_endline (skipspace ''notes.bin''))),
                         file_size = int (length sample_file), trans_type = trans_type_send\<rparr> #
        map (\<lambda>i. take MAX_OUT_DATA_SIZE (drop (i * MAX_OUT_DATA_SIZE) sample_file)) [0..<3]"
    and "length (bytes_of_header \<lparr>header_command = command_field,
                         file_name = name_field (after_last_slash (remove_endline (skipspace ''notes.bin''))),
                         file_size = int (length sample_file), trans_type = trans_type_send\<rparr>) =
         sizeof_file_header"
    and "concat (map (\<lambda>i. take MAX_OUT_DATA_SIZE (drop (i * MAX_OUT_DATA_SIZE) sample_file)) [0..<3]) =
         sample_file"
    unfolding Let_def count using socket quiet by blast+
  then show ?thesis
    unfolding three empty
    by (simp add: MAX_OUT_DATA_SIZE_def sizeof_file_header_def) (simp add: sample_file_def)
qed


lemma narrowed: "s32 (int (length huge)) = - 2147483648"
  by (simp add: huge_def s32_def)

lemma huge_opened:
  "fopen_rb ''huge.bin'' huge_world =
     (Some 0, huge_world\<lparr>fs_streams := [0 \<mapsto> ''huge.bin''], fs_next := Suc 0\<rparr>)"
  by (simp add: fopen_rb_def huge_world_def quiet_world_def)

lemma no_blocks: "send_blocks (- 2147483648) unread c w = w"
  by (simp add: send_blocks.simps [of "- 2147483648"])


lemma huge_found: "fs_files huge_world ''huge.bin'' = Some huge"
  by (simp add: huge_world_def)

lemma huge_name: "after_last_slash ''huge.bin'' = ''huge.bin''"
  by (simp add: after_last_slash.simps c_string_def ASCII_NULL_ZERO_def)

lemma huge_sent:
  "send_file ''huge.bin'' False first_chat huge_world =
     fclose 0 (printf (Sending ''huge.bin'' (- 2147483648))
       (send_data (bytes_of_header \<lparr>header_command = command_field,
                           file_name = name_field ''huge.bin'',
                           file_size = - 2147483648, trans_type = trans_type_send\<rparr>) first_chat
          (huge_world\<lparr>fs_streams := [0 \<mapsto> ''huge.bin''], fs_next := Suc 0\<rparr>)))"
  by (simp add: send_file_def Let_def huge_path plain_c_string huge_found narrowed no_blocks
      huge_opened huge_name)

text \<open>
  C1 as the specification words it, for every size, fails: \<open>out_count\<close> is an
  \<open>int\<close>, a file of \<open>2 ^ 31\<close> bytes makes it negative, and the header goes out
  with no block behind it where the claim counts 2097152 blocks.
\<close>

theorem send_file_huge:
  "tl (wire (send_file ''huge.bin'' False first_chat huge_world)) = [] \<and>
   (length huge + MAX_OUT_DATA_SIZE - 1) div MAX_OUT_DATA_SIZE = 2097152 \<and>
   concat (tl (wire (send_file ''huge.bin'' False first_chat huge_world))) \<noteq> huge"
proof -
  have socket: "send_socket first_chat \<noteq> HANDLE_NOT_VALID"
    by (simp add: first_chat_def HANDLE_NOT_VALID_def)
  let ?w1 = "huge_world\<lparr>fs_streams := [0 \<mapsto> ''huge.bin''], fs_next := Suc 0\<rparr>"
  have quiet: "sendto_script ?w1 = []" and empty: "wire ?w1 = []"
    by (simp_all add: huge_world_def quiet_world_def)
  have "tl (wire (send_file ''huge.bin'' False first_chat huge_world)) = []"
    using send_data_taken(1) [OF socket quiet] empty
    by (simp add: huge_sent fclose_def printf_def)
  moreover have "(length huge + MAX_OUT_DATA_SIZE - 1) div MAX_OUT_DATA_SIZE = 2097152"
    by (simp add: huge_def MAX_OUT_DATA_SIZE_def)
  moreover have "huge \<noteq> []"
  proof
    assume "huge = []"
    then have "length huge = 0" by simp
    then show False by (simp add: huge_def)
  qed
  ultimately show ?thesis
    by simp
qed


section \<open>Receiving a block\<close>

lemma write_block_done: "write_block [] t h w = ([], w)"
  by (simp add: write_block.simps [of "[]"])

lemma write_block_file:
  assumes "fs_streams w h = Some path" and "fs_files w path = Some old"
  shows "\<exists>written. data = written @ fst (write_block data t h w) \<and>
           fs_files (snd (write_block data t h w)) path = Some (old @ written) \<and>
           fs_streams (snd (write_block data t h w)) = fs_streams w"
  using assms
proof (induction data t h w arbitrary: old rule: write_block.induct)
  case (1 this_data write_try_count out_file w)
  show ?case
  proof (cases "this_data \<noteq> [] \<and> write_try_count < MAX_FILE_WRITE_RETRY_COUNT")
    case False
    then show ?thesis
      using "1.prems" by (subst (1 2 3) write_block.simps) auto
  next
    case True
    obtain k w1 where fw: "fwrite this_data out_file w = (k, w1)"
      by (cases "fwrite this_data out_file w")
    have w1: "fs_streams w1 = fs_streams w" "fs_files w1 path = Some (old @ take k this_data)"
      "k \<le> length this_data"
      using fw "1.prems" by (auto simp: fwrite_def Let_def split: list.splits)
    show ?thesis
    proof (cases "k > 0")
      case pos: True
      have step: "write_block this_data write_try_count out_file w = write_block (drop k this_data) 0 out_file w1"
        using True fw pos by (subst write_block.simps) simp
      have open1: "fs_streams w1 out_file = Some path"
        using w1(1) "1.prems"(1) by simp
      from "1.IH"(1) [OF True fw [symmetric] pos open1 w1(2)]
      obtain written where
        rest: "drop k this_data = written @ fst (write_block (drop k this_data) 0 out_file w1)"
        and stored: "fs_files (snd (write_block (drop k this_data) 0 out_file w1)) path =
                   Some ((old @ take k this_data) @ written)"
        and streams: "fs_streams (snd (write_block (drop k this_data) 0 out_file w1)) = fs_streams w1"
        by auto
      have "this_data = take k this_data @ drop k this_data"
        by simp
      also have "\<dots> = (take k this_data @ written) @ fst (write_block (drop k this_data) 0 out_file w1)"
        using rest by simp
      finally have "this_data = (take k this_data @ written) @
                      fst (write_block this_data write_try_count out_file w)"
        by (simp only: step)
      moreover have "fs_files (snd (write_block this_data write_try_count out_file w)) path =
                     Some (old @ take k this_data @ written)"
        using stored by (simp only: step append_assoc)
      moreover have "fs_streams (snd (write_block this_data write_try_count out_file w)) = fs_streams w"
        using streams w1(1) by (simp only: step)
      ultimately show ?thesis
        by blast
    next
      case zero: False
      then have k0: "k = 0" by simp
      have step: "write_block this_data write_try_count out_file w =
                  write_block this_data (Suc write_try_count) out_file (sleep 1 w1)"
        using True fw zero by (subst write_block.simps) simp
      have s1: "fs_streams (sleep 1 w1) out_file = Some path" "fs_files (sleep 1 w1) path = Some old"
        "fs_streams (sleep 1 w1) = fs_streams w"
        using w1 k0 "1.prems" by (simp_all add: sleep_def)
      from "1.IH"(2) [OF True fw [symmetric] zero s1(1,2)]
      show ?thesis
        unfolding step using s1(3) by auto
    qed
  qed
qed


lemma receive_file_block_open:
  assumes "find_send_control c ip = Some i"
    and "out_file_p (send_control c ! i) = Some h"
    and "in_file_transfer (send_control c ! i)"
  shows "receive_file_block data ip c w =
     (let b = send_control c ! i;
          w1 = snd (write_block data 0 h w);
          remaining = (if int (length data) \<le> to_receive_count b
                       then to_receive_count b - int (length data) else to_receive_count b)
      in if remaining = 0
         then (True, c\<lparr>send_control := erase i (send_control c)\<rparr>, fclose h w1)
         else (True, c\<lparr>send_control := (send_control c)
                          [i := b\<lparr>transfer_start_time := clock w1, to_receive_count := remaining\<rparr>]\<rparr>, w1))"
  using assms by (simp add: receive_file_block_def Let_def)

lemma twenty_zeros:
  "replicate 20 (0::nat) = [0, 0, 0, 0, 0, 0, 0, 0, 0, 0, 0, 0, 0, 0, 0, 0, 0, 0, 0, 0]"
  by (simp add: eval_nat_numeral)

lemma stalled_write:
  "write_block ''abcd'' 0 0 stalled_world =
     (''abcd'', receiving_world\<lparr>clock := 1530000020\<rparr>)"
  by (simp add: write_block.simps stalled_world_def receiving_world_def quiet_world_def fwrite_def
      sleep_def MAX_FILE_WRITE_RETRY_COUNT_def twenty_zeros Let_def)

lemma receiving_found:
  "find_send_control (receiving_chat remaining) peer = Some 0"
  "send_control (receiving_chat remaining) ! 0 =
     \<lparr>in_file_transfer = True, to_receive_count = remaining, out_file_p = Some 0,
      transfer_start_time = 1530000000, ip_address = peer\<rparr>"
  by (simp_all add: find_send_control_def receiving_chat_def)




text \<open>
  C10, as \<open>receive_file_block\<close> has it. For a block that is receiving: whatever the
  write loop left unwritten, the output file holds the old bytes and only the bytes written.
  A chunk no larger than the count lowers the count by the size of the whole chunk; when the
  chunk is the rest of the count the transfer is completed (entry erased, output closed),
  else the time of the entry is set to the clock after the writes. A chunk larger than the
  count leaves the count as it was and only sets the time (an entry whose count is zero is
  completed).
\<close>

theorem short_write_counts_in_full:
  assumes "find_send_control c ip = Some i"
    and "out_file_p (send_control c ! i) = Some h"
    and "in_file_transfer (send_control c ! i)"
    and "fs_streams w h = Some path"
    and "fs_files w path = Some old"
    and "write_block data 0 h w = (unwritten, w1)"
    and "receive_file_block data ip c w = (accepted, c', w')"
  shows "accepted \<and>
    fs_files w' path = Some (old @ take (length data - length unwritten) data) \<and>
    (int (length data) \<le> to_receive_count (send_control c ! i) \<longrightarrow>
       (if to_receive_count (send_control c ! i) = int (length data)
        then send_control c' = erase i (send_control c) \<and> fs_streams w' h = None
        else send_control c' = (send_control c)
               [i := (send_control c ! i)\<lparr>transfer_start_time := clock w1,
                        to_receive_count := to_receive_count (send_control c ! i) - int (length data)\<rparr>])) \<and>
    (to_receive_count (send_control c ! i) < int (length data) \<longrightarrow>
       (if to_receive_count (send_control c ! i) = 0
        then send_control c' = erase i (send_control c) \<and> fs_streams w' h = None
        else send_control c' = (send_control c)
               [i := (send_control c ! i)\<lparr>transfer_start_time := clock w1\<rparr>]))"
proof -
  from write_block_file [OF assms(4,5), of data 0] assms(6)
  obtain written where split: "data = written @ unwritten"
    and stored: "fs_files w1 path = Some (old @ written)"
    by auto
  have "take (length data - length unwritten) data = written"
    using split by simp
  with stored have kept: "fs_files w1 path = Some (old @ take (length data - length unwritten) data)"
    by simp
  show ?thesis
    using assms(6,7) kept unfolding receive_file_block_open [OF assms(1-3)]
    by (auto simp: Let_def fclose_def split: if_splits)
qed

lemma stalled_write_five:
  "write_block ''abcde'' 0 0 stalled_world =
     (''abcde'', receiving_world\<lparr>clock := 1530000020\<rparr>)"
  by (simp add: write_block.simps stalled_world_def receiving_world_def quiet_world_def fwrite_def
      sleep_def MAX_FILE_WRITE_RETRY_COUNT_def twenty_zeros Let_def)

text \<open>
  A disk that writes nothing for twenty calls: the four bytes of the last chunk are never
  written, the transfer of a file of four bytes is completed all the same, and the closed
  output file is empty. A chunk of five bytes against the same count only sets the time.
\<close>

theorem short_write_counts_in_full_witness:
  "write_block ''abcd'' 0 0 stalled_world = (''abcd'', receiving_world\<lparr>clock := 1530000020\<rparr>) \<and>
   receive_file_block ''abcd'' peer (receiving_chat 4) stalled_world =
     (True, first_chat, fclose 0 (receiving_world\<lparr>clock := 1530000020\<rparr>)) \<and>
   to_receive_count (send_control (receiving_chat 4) ! 0) = 4 \<and>
   fs_files (fclose 0 (receiving_world\<lparr>clock := 1530000020\<rparr>)) ''report.txt1'' = Some [] \<and>
   fs_streams (fclose 0 (receiving_world\<lparr>clock := 1530000020\<rparr>)) 0 = None \<and>
   send_control first_chat = [] \<and>
   send_control (fst (snd (receive_file_block ''abcde'' peer (receiving_chat 4) stalled_world))) =
     [\<lparr>in_file_transfer = True, to_receive_count = 4, out_file_p = Some 0,
       transfer_start_time = 1530000020, ip_address = peer\<rparr>]"
proof -
  have run: "receive_file_block ''abcd'' peer (receiving_chat 4) stalled_world =
     (True, first_chat, fclose 0 (receiving_world\<lparr>clock := 1530000020\<rparr>))"
    unfolding receive_file_block_open [OF receiving_found(1), of 4 0 "''abcd''" stalled_world, simplified receiving_found, simplified]
    by (simp add: Let_def stalled_write receiving_chat_def erase_def first_chat_def)
  have opened: "fs_streams stalled_world 0 = Some ''report.txt1''"
    and empty: "fs_files stalled_world ''report.txt1'' = Some []"
    by (simp_all add: stalled_world_def receiving_world_def)
  let ?more = "receive_file_block ''abcde'' peer (receiving_chat 4) stalled_world"
  have more: "?more = (fst ?more, fst (snd ?more), snd (snd ?more))"
    by simp
  from short_write_counts_in_full [OF receiving_found(1) _ _ opened empty stalled_write_five more]
  have "send_control (fst (snd ?more)) =
     [\<lparr>in_file_transfer = True, to_receive_count = 4, out_file_p = Some 0,
       transfer_start_time = 1530000020, ip_address = peer\<rparr>]"
    by (simp add: receiving_found) (simp add: receiving_chat_def)
  with short_write_counts_in_full [OF receiving_found(1) _ _ opened empty stalled_write run]
  show ?thesis
    by (simp add: run stalled_write receiving_found erase_def first_chat_def)
qed

text \<open>
  C10 as the specification words it, for every chunk, fails: on the disk that writes nothing
  a chunk of five bytes against a count of four is accepted, none of its bytes is written,
  and the count is still four: it has not fallen by the size of the chunk.
\<close>

theorem oversized_chunk_on_stalled_disk:
  "receive_file_block ''abcde'' peer (receiving_chat 4) stalled_world =
     (True,
      first_chat\<lparr>send_control :=
        [\<lparr>in_file_transfer = True, to_receive_count = 4, out_file_p = Some 0,
          transfer_start_time = 1530000020, ip_address = peer\<rparr>]\<rparr>,
      receiving_world\<lparr>clock := 1530000020\<rparr>) \<and>
   to_receive_count (send_control (receiving_chat 4) ! 0) = 4 \<and>
   fs_files (receiving_world\<lparr>clock := 1530000020\<rparr>) ''report.txt1'' = Some [] \<and>
   int (length ''abcde'') = 5"
  unfolding receive_file_block_open [OF receiving_found(1), of 4 0 "''abcde''" stalled_world, simplified receiving_found, simplified]
  by (simp add: Let_def stalled_write_five receiving_chat_def receiving_world_def first_chat_def)

section \<open>Header frames\<close>

lemma four_bytes:
  fixes n :: int
  shows "n mod 256 + 256 * (n div 256 mod 256) + 65536 * (n div 65536 mod 256) +
           16777216 * (n div 16777216 mod 256) = n mod 4294967296"
proof -
  have a: "n mod 65536 = 256 * (n div 256 mod 256) + n mod 256"
    using zmod_zmult2_eq [of 256 n 256] by simp
  have b: "n div 65536 mod 65536 = 256 * (n div 65536 div 256 mod 256) + n div 65536 mod 256"
    using zmod_zmult2_eq [of 256 "n div 65536" 256] by simp
  have c: "n mod 4294967296 = 65536 * (n div 65536 mod 65536) + n mod 65536"
    using zmod_zmult2_eq [of 65536 n 65536] by simp
  have d: "n div 65536 div 256 = n div 16777216"
    using zdiv_zmult2_eq [of 256 n 65536] by simp
  show ?thesis
    unfolding c a b d by simp
qed

lemma bytes_int_int_bytes:
  assumes "- (2 ^ 31) \<le> n" and "n < 2 ^ 31"
  shows "bytes_int (int_bytes n @ rest) = n"
proof -
  have "bytes_int (int_bytes n @ rest) = s32 (n mod 4294967296)"
    by (simp add: int_bytes_def four_bytes)
  also have "\<dots> = signed_take_bit 31 (take_bit 32 n)"
    by (simp add: s32_def take_bit_eq_mod)
  also have "\<dots> = signed_take_bit 31 n"
    by (simp add: signed_take_bit_take_bit)
  also have "\<dots> = n"
    using assms by (intro signed_take_bit_int_eq_self) simp_all
  finally show ?thesis .
qed

lemma header_roundtrip:
  assumes "length (header_command h) = XFER_HDR_CMD_SIZE"
    and "length (file_name h) = XFER_HDR_NAME_SZIE"
    and "- (2 ^ 31) \<le> file_size h" and "file_size h < 2 ^ 31"
    and "- (2 ^ 31) \<le> trans_type h" and "trans_type h < 2 ^ 31"
  shows "header_of_bytes (bytes_of_header h @ rest) = h"
proof -
  have "drop 112 (bytes_of_header h @ rest) = int_bytes (file_size h) @ int_bytes (trans_type h) @ rest"
    using assms(1,2) by (simp add: bytes_of_header_def XFER_HDR_CMD_SIZE_def XFER_HDR_NAME_SZIE_def)
  moreover have "drop 116 (bytes_of_header h @ rest) = int_bytes (trans_type h) @ rest"
    using assms(1,2) by (simp add: bytes_of_header_def XFER_HDR_CMD_SIZE_def XFER_HDR_NAME_SZIE_def int_bytes_def)
  ultimately show ?thesis
    using assms by (simp add: header_of_bytes_def bytes_int_int_bytes bytes_of_header_def)
qed

lemma c_string_append_nul:
  "ASCII_NULL_ZERO \<notin> set s \<Longrightarrow> c_string (s @ ASCII_NULL_ZERO # rest) = s"
  by (auto simp: c_string_def takeWhile_tail)

lemma name_field_short:
  assumes "length s < 100"
  shows "name_field s = s @ ASCII_NULL_ZERO # replicate (100 - length s) ASCII_NULL_ZERO"
proof -
  have "take 100 (s @ replicate 100 ASCII_NULL_ZERO) = s @ replicate (100 - length s) ASCII_NULL_ZERO"
    using assms by simp
  moreover have "replicate (100 - length s) ASCII_NULL_ZERO @ [ASCII_NULL_ZERO] =
                 ASCII_NULL_ZERO # replicate (100 - length s) ASCII_NULL_ZERO"
    by (simp add: replicate_append_same)
  ultimately show ?thesis
    by (simp add: name_field_def XFER_HDR_NAME_SZIE_def)
qed

lemma c_string_name_field:
  assumes "ASCII_NULL_ZERO \<notin> set s" and "length s < 100"
  shows "c_string (name_field s @ rest) = s"
  using assms by (simp add: name_field_short c_string_append_nul)

lemma report_header:
  assumes "- (2 ^ 31) \<le> n" and "n < 2 ^ 31"
  shows "header_of_bytes (report_frame n @ rest) =
     \<lparr>header_command = command_field, file_name = name_field ''report.txt'',
      file_size = n, trans_type = trans_type_send\<rparr>"
  unfolding report_frame_def using assms
  by (intro header_roundtrip)
     (simp_all add: length_command_field length_name_field XFER_HDR_CMD_SIZE_def
        XFER_HDR_NAME_SZIE_def trans_type_send_def)

lemma report_name:
  "c_string (file_name_region \<lparr>header_command = command_field, file_name = name_field ''report.txt'',
      file_size = n, trans_type = t\<rparr>) = ''report.txt''"
  by (simp add: file_name_region_def c_string_name_field ASCII_NULL_ZERO_def)

lemma report_tag: "take 6 (report_frame n @ rest) = '':xfer:''"
  by (simp add: report_frame_def bytes_of_header_def command_field_def)

lemma length_report_frame: "length (report_frame n) = 120"
  using length_bytes_of_header [of "''report.txt''" n trans_type_send]
  by (simp add: report_frame_def sizeof_file_header_def)

lemma decimal_1: "decimal (Suc 0) = ''1''"
  by code_simp

lemma recvfrom_report:
  "receive_socket c \<noteq> HANDLE_NOT_VALID \<Longrightarrow>
   length (udp_inbound_buffer c) = UDP_IN_BUFFER_SIZE \<Longrightarrow>
   recvfrom (Some (report_frame n, ip)) c =
     (120, ip, c\<lparr>udp_inbound_buffer := report_frame n @ drop 120 (udp_inbound_buffer c)\<rparr>)"
  by (simp add: recvfrom_def Let_def length_report_frame UDP_IN_BUFFER_SIZE_def)

lemma first_chat_facts:
  "receive_socket first_chat \<noteq> HANDLE_NOT_VALID"
  "send_socket first_chat \<noteq> HANDLE_NOT_VALID"
  "length (udp_inbound_buffer first_chat) = UDP_IN_BUFFER_SIZE"
  "send_control first_chat = []"
  by (simp_all add: first_chat_def HANDLE_NOT_VALID_def)

lemma choose_first:
  "fs_files w (requested @ ''1'') = None \<Longrightarrow>
     choose_name requested 0 w = (Some (requested @ ''1''), w)"
  by (subst choose_name.simps)
     (simp add: MAX_FILE_OVERWRITE_CHECK_def Let_def decimal_1 fopen_rb_def)

lemma started_reached:
  "read_data (Some (report_frame 5, peer)) first_chat quiet_world = (0, started_chat, started_world)"
proof -
  let ?buf = "report_frame 5 @ drop 120 (udp_inbound_buffer first_chat)"
  let ?c1 = "first_chat\<lparr>udp_inbound_buffer := ?buf\<rparr>"
  have free: "fs_files quiet_world (''report.txt'' @ ''1'') = None"
    by (simp add: quiet_world_def)
  have started: "receive_file_start ?buf 120 peer ?c1 quiet_world =
      ((receiving_chat 5)\<lparr>udp_inbound_buffer := ?buf\<rparr>,
       receiving_world\<lparr>console := [Inbound_file ''report.txt1'' 5 peer]\<rparr>)"
    by (simp add: receive_file_start_def abort_previous_def find_send_control_def first_chat_facts
        report_header report_name choose_first [OF free] fopen_wb_def Let_def printf_def
        sizeof_file_header_def)
       (simp add: quiet_world_def receiving_world_def receiving_chat_def first_chat_def)
  have moved: "file_transfer ?buf 120 peer ?c1 quiet_world =
      ((receiving_chat 5)\<lparr>udp_inbound_buffer := ?buf\<rparr>,
       receiving_world\<lparr>console := [Inbound_file ''report.txt1'' 5 peer]\<rparr>)"
    by (simp add: file_transfer_def Let_def report_header started)
  show ?thesis
    by (simp add: read_data_def recvfrom_report first_chat_facts report_tag moved
        started_chat_def started_world_def del: take_append)
qed

text \<open>
  C3 at a header for \<open>report.txt\<close> of five bytes, on a disk that holds neither
  \<open>report.txt\<close> nor \<open>report.txt1\<close>: the counter is incremented before the first
  name is made, so the literal name is not tried and the output file is
  \<open>report.txt1\<close>.
\<close>

theorem first_name_tried_has_suffix:
  "read_data (Some (report_frame 5, peer)) first_chat quiet_world =
     (0, (receiving_chat 5)\<lparr>udp_inbound_buffer :=
            report_frame 5 @ drop 120 (udp_inbound_buffer first_chat)\<rparr>,
      receiving_world\<lparr>console := [Inbound_file ''report.txt1'' 5 peer]\<rparr>) \<and>
   fs_files quiet_world ''report.txt'' = None \<and>
   fs_files receiving_world ''report.txt'' = None \<and>
   fs_files receiving_world ''report.txt1'' = Some []"
proof -
  have "fs_files quiet_world ''report.txt'' = None"
    and "fs_files receiving_world ''report.txt'' = None"
    and "fs_files receiving_world ''report.txt1'' = Some []"
    by (simp_all add: quiet_world_def receiving_world_def)
  with started_reached show ?thesis
    by (simp add: started_chat_def started_world_def)
qed

section \<open>Starting to receive\<close>

lemma receive_file_start_zero:
  "file_size (header_of_bytes this_data) = 0 \<Longrightarrow>
     receive_file_start this_data this_byte_size ip c w = abort_previous ip c w"
  by (simp add: receive_file_start_def Let_def split: prod.splits)

text \<open>
  C6, as \<open>receive_file_start\<close> has it. A header of kind send with a file size of zero
  creates no control block, no file and no stream. The request is looked at only after the
  transfer that the same peer may have in progress is dropped: with no entry for the peer
  the object and the world are unchanged; with an entry, that entry is erased and its
  output, when open, is closed.
\<close>

theorem zero_size_request:
  assumes "trans_type (header_of_bytes this_data) = trans_type_send"
    and "file_size (header_of_bytes this_data) = 0"
    and "file_transfer this_data this_byte_size ip c w = (c', w')"
  shows "fs_files w' = fs_files w \<and> fs_next w' = fs_next w \<and>
    (case find_send_control c ip of
       None \<Rightarrow> c' = c \<and> w' = w
     | Some i \<Rightarrow>
         c' = c\<lparr>send_control := erase i (send_control c)\<rparr> \<and>
         (case out_file_p (send_control c ! i) of
            None \<Rightarrow> w' = w
          | Some out_file \<Rightarrow>
              w' = (if in_file_transfer (send_control c ! i)
                    then printf (Aborted_previous ip) (fclose out_file w) else w)))"
proof -
  have "abort_previous ip c w = (c', w')"
    using assms by (simp add: file_transfer_def Let_def receive_file_start_zero)
  then show ?thesis
    by (auto simp: abort_previous_def Let_def printf_def fclose_def split: option.splits if_splits)
qed

text \<open>
  With no transfer in progress a header of size zero changes nothing.
\<close>

theorem zero_size_request_witness:
  "file_transfer (report_frame 0 @ drop 120 (udp_inbound_buffer first_chat)) 120 peer first_chat quiet_world =
     (first_chat, quiet_world) \<and>
   find_send_control first_chat peer = None \<and>
   file_size (header_of_bytes (report_frame 0 @ drop 120 (udp_inbound_buffer first_chat))) = 0"
proof -
  let ?buf = "report_frame 0 @ drop 120 (udp_inbound_buffer first_chat)"
  have kind: "trans_type (header_of_bytes ?buf) = trans_type_send"
    and empty: "file_size (header_of_bytes ?buf) = 0"
    by (simp_all add: report_header)
  have none: "find_send_control first_chat peer = None"
    by (simp add: find_send_control_def first_chat_facts)
  from zero_size_request [OF kind empty surjective_pairing, of 120 peer first_chat quiet_world]
  show ?thesis
    by (simp add: none empty prod_eq_iff)
qed

text \<open>
  C6 as the specification words it fails: a header of size zero from a peer whose
  transfer is in progress leaves neither the registry nor the open streams unchanged; the
  entry of the peer is erased and its output closed.
\<close>

theorem zero_size_aborts_open_transfer:
  "read_data (Some (report_frame 0, peer)) (receiving_chat 5) receiving_world =
     (0, first_chat\<lparr>udp_inbound_buffer := report_frame 0 @ drop 120 (udp_inbound_buffer first_chat)\<rparr>,
      printf (Aborted_previous peer) (fclose 0 receiving_world)) \<and>
   send_control (receiving_chat 5) \<noteq> send_control first_chat \<and>
   fs_streams receiving_world 0 \<noteq> fs_streams (printf (Aborted_previous peer) (fclose 0 receiving_world)) 0"
proof -
  let ?buf = "report_frame 0 @ drop 120 (udp_inbound_buffer first_chat)"
  let ?c1 = "(receiving_chat 5)\<lparr>udp_inbound_buffer := ?buf\<rparr>"
  have facts: "receive_socket (receiving_chat 5) \<noteq> HANDLE_NOT_VALID"
    "length (udp_inbound_buffer (receiving_chat 5)) = UDP_IN_BUFFER_SIZE"
    "udp_inbound_buffer (receiving_chat 5) = udp_inbound_buffer first_chat"
    by (simp_all add: receiving_chat_def first_chat_facts)
  have "find_send_control ?c1 peer = Some 0"
    by (simp add: find_send_control_def receiving_chat_def)
  then have "abort_previous peer ?c1 receiving_world =
      (first_chat\<lparr>udp_inbound_buffer := ?buf\<rparr>, printf (Aborted_previous peer) (fclose 0 receiving_world))"
    by (simp add: abort_previous_def Let_def receiving_chat_def erase_def first_chat_def)
  then have moved: "file_transfer ?buf 120 peer ?c1 receiving_world =
      (first_chat\<lparr>udp_inbound_buffer := ?buf\<rparr>, printf (Aborted_previous peer) (fclose 0 receiving_world))"
    by (simp add: file_transfer_def Let_def report_header receive_file_start_zero)
  have "read_data (Some (report_frame 0, peer)) (receiving_chat 5) receiving_world =
     (0, first_chat\<lparr>udp_inbound_buffer := ?buf\<rparr>,
      printf (Aborted_previous peer) (fclose 0 receiving_world))"
    by (simp add: read_data_def recvfrom_report facts first_chat_facts report_tag moved
        del: take_append)
  moreover have "send_control (receiving_chat 5) \<noteq> send_control first_chat"
    by (simp add: receiving_chat_def first_chat_def)
  moreover have "fs_streams receiving_world 0 \<noteq>
                 fs_streams (printf (Aborted_previous peer) (fclose 0 receiving_world)) 0"
    by (simp add: receiving_world_def printf_def fclose_def)
  ultimately show ?thesis
    by simp
qed

section \<open>Dispatch of inbound frames\<close>

lemma recvfrom_stored:
  "recvfrom (Some (datagram, ip)) c =
     (int (length (take UDP_IN_BUFFER_SIZE datagram)), ip,
      c\<lparr>udp_inbound_buffer := stored_in datagram (udp_inbound_buffer c)\<rparr>)"
  by (simp add: recvfrom_def stored_in_def Let_def)

lemma take_stored_in:
  "take (min (length datagram) UDP_IN_BUFFER_SIZE) (stored_in datagram buffer) =
     take UDP_IN_BUFFER_SIZE datagram"
  by (auto simp: stored_in_def min_def)

lemma receive_file_block_accepts:
  "fst (receive_file_block this_data ip c w) = receiving_from c ip"
  by (simp add: receive_file_block_def receiving_from_def Let_def split: option.splits)

lemma receive_file_block_refuses:
  "\<not> receiving_from c ip \<Longrightarrow> receive_file_block this_data ip c w = (False, c, w)"
  by (auto simp: receive_file_block_def receiving_from_def Let_def split: option.splits)

lemma receiving_from_buffer [simp]:
  "receiving_from (c\<lparr>udp_inbound_buffer := buffer\<rparr>) ip = receiving_from c ip"
  by (simp add: receiving_from_def find_send_control_def split: option.splits)

lemma read_data_frame:
  assumes "receive_socket c \<noteq> HANDLE_NOT_VALID" and "datagram \<noteq> []"
  shows "read_data (Some (datagram, ip)) c w =
      (if take 6 (stored_in datagram (udp_inbound_buffer c)) = '':xfer:''
       then (0, file_transfer (stored_in datagram (udp_inbound_buffer c))
                  (int (length (take UDP_IN_BUFFER_SIZE datagram))) ip
                  (c\<lparr>udp_inbound_buffer := stored_in datagram (udp_inbound_buffer c)\<rparr>) w)
       else (case receive_file_block (take UDP_IN_BUFFER_SIZE datagram) ip
                   (c\<lparr>udp_inbound_buffer := stored_in datagram (udp_inbound_buffer c)\<rparr>) w of
               (True, c2, w2) \<Rightarrow> (0, c2, w2)
             | (False, c2, w2) \<Rightarrow> (int (length (take UDP_IN_BUFFER_SIZE datagram)), c2, w2)))"
proof -
  have "0 < int (length (take UDP_IN_BUFFER_SIZE datagram))"
    using assms(2) by (cases datagram) (simp_all add: UDP_IN_BUFFER_SIZE_def)
  then show ?thesis
    using assms(1)
    by (simp add: read_data_def recvfrom_stored take_stored_in del: take_append
        split: prod.splits bool.splits)
qed

text \<open>
  C5, as \<open>read_data\<close> has it. The test for the command tag is made on the first six
  bytes of the receive buffer after the datagram has been stored in it; for a datagram of
  six bytes or more these are the leading bytes of the datagram. When they are the tag the
  datagram is handled as a transfer header and nothing is reported to the caller. When they
  are not, the datagram is consumed (nothing reported) if the sender has an entry that is
  receiving into an open file, and otherwise the count of the stored bytes is returned with
  these bytes in the receive buffer, and nothing else changes.
\<close>

theorem dispatch_classification:
  assumes "receive_socket c \<noteq> HANDLE_NOT_VALID" and "datagram \<noteq> []"
  shows
    "(let stored = take UDP_IN_BUFFER_SIZE datagram;
          c1 = c\<lparr>udp_inbound_buffer := stored_in datagram (udp_inbound_buffer c)\<rparr>
      in (6 \<le> length datagram \<longrightarrow> take 6 (udp_inbound_buffer c1) = take 6 datagram) \<and>
         (take 6 (udp_inbound_buffer c1) = '':xfer:'' \<longrightarrow>
            read_data (Some (datagram, ip)) c w =
              (0, file_transfer (udp_inbound_buffer c1) (int (length stored)) ip c1 w)) \<and>
         (take 6 (udp_inbound_buffer c1) \<noteq> '':xfer:'' \<and> receiving_from c ip \<longrightarrow>
            read_data (Some (datagram, ip)) c w =
              (0, snd (receive_file_block stored ip c1 w))) \<and>
         (take 6 (udp_inbound_buffer c1) \<noteq> '':xfer:'' \<and> \<not> receiving_from c ip \<longrightarrow>
            read_data (Some (datagram, ip)) c w = (int (length stored), c1, w) \<and>
            take (length stored) (udp_inbound_buffer c1) = stored))"
proof -
  let ?stored = "take UDP_IN_BUFFER_SIZE datagram"
  let ?c1 = "c\<lparr>udp_inbound_buffer := stored_in datagram (udp_inbound_buffer c)\<rparr>"
  have leading: "take 6 (udp_inbound_buffer ?c1) = take 6 datagram" if "6 \<le> length datagram"
    using that by (simp add: stored_in_def UDP_IN_BUFFER_SIZE_def min_def)
  have read: "read_data (Some (datagram, ip)) c w =
      (if take 6 (udp_inbound_buffer ?c1) = '':xfer:''
       then (0, file_transfer (udp_inbound_buffer ?c1) (int (length ?stored)) ip ?c1 w)
       else (case receive_file_block ?stored ip ?c1 w of
               (True, c2, w2) \<Rightarrow> (0, c2, w2)
             | (False, c2, w2) \<Rightarrow> (int (length ?stored), c2, w2)))"
    using read_data_frame [OF assms, of ip w] by simp
  have header: "read_data (Some (datagram, ip)) c w =
      (0, file_transfer (udp_inbound_buffer ?c1) (int (length ?stored)) ip ?c1 w)"
    if "take 6 (udp_inbound_buffer ?c1) = '':xfer:''"
    unfolding read using that by simp
  have other: "read_data (Some (datagram, ip)) c w =
      (case receive_file_block ?stored ip ?c1 w of
         (True, c2, w2) \<Rightarrow> (0, c2, w2) | (False, c2, w2) \<Rightarrow> (int (length ?stored), c2, w2))"
    if "take 6 (udp_inbound_buffer ?c1) \<noteq> '':xfer:''"
    unfolding read using that by simp
  have block: "read_data (Some (datagram, ip)) c w = (0, snd (receive_file_block ?stored ip ?c1 w))"
    if "take 6 (udp_inbound_buffer ?c1) \<noteq> '':xfer:''" and "receiving_from c ip"
  proof -
    have "fst (receive_file_block ?stored ip ?c1 w)"
      using that(2) by (simp add: receive_file_block_accepts)
    then show ?thesis
      unfolding other [OF that(1)] by (cases "receive_file_block ?stored ip ?c1 w") simp
  qed
  have plain: "read_data (Some (datagram, ip)) c w = (int (length ?stored), ?c1, w)"
    if "take 6 (udp_inbound_buffer ?c1) \<noteq> '':xfer:''" and "\<not> receiving_from c ip"
    unfolding other [OF that(1)] using that(2) by (simp add: receive_file_block_refuses)
  show ?thesis
    unfolding Let_def using leading header block plain take_stored_in [of datagram "udp_inbound_buffer c"]
    by (simp del: take_append)
qed


lemma stored_in_same:
  "take (length datagram) buffer = datagram \<Longrightarrow> length datagram \<le> UDP_IN_BUFFER_SIZE \<Longrightarrow>
     stored_in datagram buffer = buffer"
  by (simp add: stored_in_def) (metis append_take_drop_id)

lemma idle_reached:
  "read_data (Some (report_frame 0, peer)) first_chat quiet_world = (0, idle_chat, quiet_world)"
proof -
  have "file_transfer (report_frame 0 @ drop 120 (udp_inbound_buffer first_chat)) 120 peer
          idle_chat quiet_world = (idle_chat, quiet_world)"
    by (simp add: file_transfer_def Let_def report_header receive_file_start_zero
        abort_previous_def find_send_control_def idle_chat_def first_chat_facts)
  then show ?thesis
    by (simp add: read_data_def recvfrom_report first_chat_facts report_tag idle_chat_def
        del: take_append)
qed

lemma idle_facts:
  "receive_socket idle_chat \<noteq> HANDLE_NOT_VALID"
  "send_control idle_chat = []"
  "udp_inbound_buffer idle_chat = report_frame 0 @ drop 120 (udp_inbound_buffer first_chat)"
  "\<not> receiving_from idle_chat ip"
  by (simp_all add: idle_chat_def first_chat_facts receiving_from_def find_send_control_def)

lemma report_frame_start:
  "take 3 (report_frame n @ rest) = '':xf''" "take 6 (report_frame n @ rest) = '':xfer:''"
  by (simp_all add: report_frame_def bytes_of_header_def command_field_def)

text \<open>
  C5 as the specification words it, for every datagram, fails on one that is shorter than
  the tag. After a header frame has been read, the three bytes \<open>:xf\<close> from a peer
  with no transfer in progress are stored over the start of that frame; the buffer still
  begins with the tag, and the datagram is consumed and not reported as text.
\<close>

theorem short_datagram_taken_for_header:
  "read_data (Some (report_frame 0, peer)) first_chat quiet_world = (0, idle_chat, quiet_world) \<and>
   read_data (Some ('':xf'', peer)) idle_chat quiet_world = (0, idle_chat, quiet_world) \<and>
   take 6 '':xf'' \<noteq> '':xfer:'' \<and> \<not> receiving_from idle_chat peer"
proof -
  let ?buf = "report_frame 0 @ drop 120 (udp_inbound_buffer first_chat)"
  have "take (length '':xf'') ?buf = '':xf''"
    by (simp add: report_frame_def bytes_of_header_def command_field_def)
  then have same: "stored_in '':xf'' ?buf = ?buf"
    by (rule stored_in_same) (simp add: UDP_IN_BUFFER_SIZE_def)
  have moved: "file_transfer ?buf 3 peer idle_chat quiet_world = (idle_chat, quiet_world)"
    by (simp add: file_transfer_def Let_def report_header receive_file_start_zero
        abort_previous_def find_send_control_def idle_facts)
  have kept: "idle_chat\<lparr>udp_inbound_buffer := ?buf\<rparr> = idle_chat"
    by (simp add: idle_chat_def)
  have "read_data (Some ('':xf'', peer)) idle_chat quiet_world = (0, idle_chat, quiet_world)"
    by (simp add: read_data_def recvfrom_stored idle_facts same report_frame_start moved kept
        UDP_IN_BUFFER_SIZE_def del: take_append)
  then show ?thesis
    by (simp add: idle_reached idle_facts)
qed


text \<open>
  A chat text of six bytes from a peer that sends no file is reported to the caller.
\<close>

theorem dispatch_classification_witness:
  "read_data (Some (''hello'' @ [ASCII_NULL_ZERO], peer)) first_chat quiet_world =
     (6, first_chat\<lparr>udp_inbound_buffer :=
           stored_in (''hello'' @ [ASCII_NULL_ZERO]) (udp_inbound_buffer first_chat)\<rparr>, quiet_world) \<and>
   take 6 (stored_in (''hello'' @ [ASCII_NULL_ZERO]) (udp_inbound_buffer first_chat)) =
     ''hello'' @ [ASCII_NULL_ZERO] \<and>
   \<not> receiving_from first_chat peer"
proof -
  have idle: "\<not> receiving_from first_chat peer"
    by (simp add: receiving_from_def find_send_control_def first_chat_facts)
  have shown: "take 6 (stored_in (''hello'' @ [ASCII_NULL_ZERO]) (udp_inbound_buffer first_chat)) =
              ''hello'' @ [ASCII_NULL_ZERO]"
    by (simp add: stored_in_def UDP_IN_BUFFER_SIZE_def)
  from dispatch_classification [OF first_chat_facts(1), of "''hello'' @ [ASCII_NULL_ZERO]" peer quiet_world]
  show ?thesis
    unfolding Let_def using idle shown
    by (simp add: UDP_IN_BUFFER_SIZE_def ASCII_NULL_ZERO_def del: take_append)
qed

lemma file_transfer_short:
  assumes "n \<le> int sizeof_file_header"
  shows "file_transfer this_data n ip c w = file_transfer this_data (int sizeof_file_header) ip c w"
  using assms
  by (simp add: file_transfer_def receive_file_start_def Let_def
      split: prod.splits option.splits)

text \<open>
  C8, as \<open>file_transfer\<close> has it. No length is checked and no error exists. A
  datagram shorter than the header, stored in a receive buffer that then begins with the
  tag, is handled exactly as the frame of full size made of it and of the bytes that follow
  it in the receive buffer, and it is consumed.
\<close>

theorem short_header_frame:
  assumes "length (udp_inbound_buffer c) = UDP_IN_BUFFER_SIZE"
    and "datagram \<noteq> []"
    and "length datagram < sizeof_file_header"
    and "take 6 (stored_in datagram (udp_inbound_buffer c)) = '':xfer:''"
  shows "read_data (Some (datagram, ip)) c w =
           read_data (Some (take sizeof_file_header (stored_in datagram (udp_inbound_buffer c)), ip)) c w \<and>
         fst (read_data (Some (datagram, ip)) c w) = 0 \<and>
         length (take sizeof_file_header (stored_in datagram (udp_inbound_buffer c))) = sizeof_file_header"
proof (cases "receive_socket c \<noteq> HANDLE_NOT_VALID")
  case False
  then show ?thesis
    using assms(1,3)
    by (simp add: read_data_def stored_in_def UDP_IN_BUFFER_SIZE_def sizeof_file_header_def)
next
  case True
  let ?buf = "stored_in datagram (udp_inbound_buffer c)"
  let ?frame = "take sizeof_file_header ?buf"
  let ?c1 = "c\<lparr>udp_inbound_buffer := ?buf\<rparr>"
  have short: "take UDP_IN_BUFFER_SIZE datagram = datagram"
    using assms(3) by (simp add: UDP_IN_BUFFER_SIZE_def sizeof_file_header_def)
  have buf: "?buf = datagram @ drop (length datagram) (udp_inbound_buffer c)"
    by (simp add: stored_in_def short)
  have full: "length ?frame = sizeof_file_header"
    using assms(1,3) by (simp add: buf UDP_IN_BUFFER_SIZE_def sizeof_file_header_def)
  have whole: "take UDP_IN_BUFFER_SIZE ?frame = ?frame"
    using full by (simp add: UDP_IN_BUFFER_SIZE_def sizeof_file_header_def)
  have "drop sizeof_file_header (udp_inbound_buffer c) = drop sizeof_file_header ?buf"
    using assms(3) by (simp add: buf)
  then have same: "stored_in ?frame (udp_inbound_buffer c) = ?buf"
    unfolding stored_in_def [of ?frame] whole full by simp
  have nonempty: "?frame \<noteq> []"
    using full by (rule header_size_nonempty)
  have one: "read_data (Some (datagram, ip)) c w =
               (0, file_transfer ?buf (int (length datagram)) ip ?c1 w)"
    unfolding read_data_frame [OF True assms(2)] short using assms(4) by simp
  have two: "read_data (Some (?frame, ip)) c w =
               (0, file_transfer ?buf (int sizeof_file_header) ip ?c1 w)"
    unfolding read_data_frame [OF True nonempty] whole same full using assms(4) by simp
  have "file_transfer ?buf (int (length datagram)) ip ?c1 w =
        file_transfer ?buf (int sizeof_file_header) ip ?c1 w"
    using assms(3) by (intro file_transfer_short) simp
  then have "read_data (Some (datagram, ip)) c w = read_data (Some (?frame, ip)) c w"
    and "fst (read_data (Some (datagram, ip)) c w) = 0"
    by (simp_all only: one two fst_conv)
  with full show ?thesis
    by (intro conjI)
qed


lemma started_facts:
  "receive_socket started_chat \<noteq> HANDLE_NOT_VALID"
  "length (udp_inbound_buffer started_chat) = UDP_IN_BUFFER_SIZE"
  "udp_inbound_buffer started_chat = report_frame 5 @ drop 120 (udp_inbound_buffer first_chat)"
  "send_control started_chat =
     [\<lparr>in_file_transfer = True, to_receive_count = 5, out_file_p = Some 0,
       transfer_start_time = 1530000000, ip_address = peer\<rparr>]"
  by (simp_all add: started_chat_def receiving_chat_def first_chat_facts length_report_frame
      first_chat_def UDP_IN_BUFFER_SIZE_def HANDLE_NOT_VALID_def)

lemma tag_stored_in_started:
  "stored_in '':xfer:'' (udp_inbound_buffer started_chat) = udp_inbound_buffer started_chat"
proof -
  have "take (length '':xfer:'') (udp_inbound_buffer started_chat) = '':xfer:''"
    by (simp add: started_facts report_frame_def bytes_of_header_def command_field_def)
  then show ?thesis
    by (rule stored_in_same) (simp add: UDP_IN_BUFFER_SIZE_def)
qed

text \<open>
  The six bytes of the tag, received after a header for \<open>report.txt\<close>, are handled as
  that header received once more.
\<close>

theorem short_header_frame_witness:
  "read_data (Some ('':xfer:'', peer)) started_chat started_world =
     read_data (Some (report_frame 5, peer)) started_chat started_world \<and>
   fst (read_data (Some ('':xfer:'', peer)) started_chat started_world) = 0 \<and>
   length '':xfer:'' < sizeof_file_header"
proof -
  have short: "length '':xfer:'' < sizeof_file_header"
    by (simp add: sizeof_file_header_def)
  have tagged: "take 6 (stored_in '':xfer:'' (udp_inbound_buffer started_chat)) = '':xfer:''"
    unfolding tag_stored_in_started by (simp add: started_facts(3) report_tag del: take_append)
  have frame: "take sizeof_file_header (stored_in '':xfer:'' (udp_inbound_buffer started_chat)) =
               report_frame 5"
    unfolding tag_stored_in_started
    by (simp add: started_facts(3) length_report_frame sizeof_file_header_def)
  have "read_data (Some ('':xfer:'', peer)) started_chat started_world =
          read_data (Some (report_frame 5, peer)) started_chat started_world \<and>
        fst (read_data (Some ('':xfer:'', peer)) started_chat started_world) = 0 \<and>
        length (report_frame 5) = sizeof_file_header"
    using short_header_frame [OF started_facts(2) _ short tagged, of peer started_world]
    unfolding frame by blast
  with short show ?thesis
    by blast
qed

lemma decimal_Suc_Suc: "decimal (Suc (Suc 0)) = ''2''"
  by code_simp

lemma second_start:
  "file_transfer (udp_inbound_buffer started_chat) 6 peer started_chat started_world =
      (started_chat\<lparr>send_control :=
          [\<lparr>in_file_transfer = True, to_receive_count = 5, out_file_p = Some 2,
            transfer_start_time = 1530000000, ip_address = peer\<rparr>]\<rparr>,
       printf (Inbound_file ''report.txt2'' 5 peer)
         (snd (fopen_wb ''report.txt2''
            ((printf (Aborted_previous peer) (fclose 0 started_world))\<lparr>fs_next := 2\<rparr>))))"
proof -
  let ?buf = "udp_inbound_buffer started_chat"
  have aborted: "abort_previous peer started_chat started_world =
      (started_chat\<lparr>send_control := []\<rparr>, printf (Aborted_previous peer) (fclose 0 started_world))"
    by (simp add: abort_previous_def find_send_control_def started_facts Let_def erase_def)
  have chosen: "choose_name ''report.txt'' 0 (printf (Aborted_previous peer) (fclose 0 started_world)) =
      (Some ''report.txt2'',
       (printf (Aborted_previous peer) (fclose 0 started_world))\<lparr>fs_next := 2\<rparr>)"
    by (simp add: choose_name.simps MAX_FILE_OVERWRITE_CHECK_def Let_def decimal_1 decimal_Suc_Suc
        fopen_rb_def fclose_def printf_def started_world_def receiving_world_def quiet_world_def)
  have "receive_file_start ?buf 6 peer started_chat started_world =
      (started_chat\<lparr>send_control :=
          [\<lparr>in_file_transfer = True, to_receive_count = 5, out_file_p = Some 2,
            transfer_start_time = 1530000000, ip_address = peer\<rparr>]\<rparr>,
       printf (Inbound_file ''report.txt2'' 5 peer)
         (snd (fopen_wb ''report.txt2''
            ((printf (Aborted_previous peer) (fclose 0 started_world))\<lparr>fs_next := 2\<rparr>))))"
    by (simp add: receive_file_start_def aborted started_facts(3) report_header report_name chosen
        Let_def sizeof_file_header_def)
       (simp add: fopen_wb_def printf_def fclose_def started_world_def receiving_world_def
        quiet_world_def Let_def sizeof_file_header_def)
  then show ?thesis
    by (simp add: file_transfer_def Let_def started_facts(3) report_header)
qed

text \<open>
  C8 as the specification words it fails: from a datagram of six bytes a header is made
  (its name, size and kind are the bytes left in the buffer), the transfer in progress is
  aborted and a new transfer of five bytes into \<open>report.txt2\<close> begins. Nothing is
  reported but the two messages of the new start.
\<close>

theorem short_frame_starts_transfer:
  "length '':xfer:'' < sizeof_file_header \<and>
   fst (read_data (Some ('':xfer:'', peer)) started_chat started_world) = 0 \<and>
   send_control (fst (snd (read_data (Some ('':xfer:'', peer)) started_chat started_world))) =
     [\<lparr>in_file_transfer = True, to_receive_count = 5, out_file_p = Some 2,
       transfer_start_time = 1530000000, ip_address = peer\<rparr>] \<and>
   fs_files (snd (snd (read_data (Some ('':xfer:'', peer)) started_chat started_world)))
     ''report.txt2'' = Some [] \<and>
   console (snd (snd (read_data (Some ('':xfer:'', peer)) started_chat started_world))) =
     [Inbound_file ''report.txt1'' 5 peer, Aborted_previous peer, Inbound_file ''report.txt2'' 5 peer]"
proof -
  let ?buf = "udp_inbound_buffer started_chat"
  have kept: "started_chat\<lparr>udp_inbound_buffer := ?buf\<rparr> = started_chat"
    by simp
  have read: "read_data (Some ('':xfer:'', peer)) started_chat started_world =
              (0, file_transfer ?buf 6 peer started_chat started_world)"
    unfolding read_data_frame [OF started_facts(1), of "'':xfer:''" peer started_world, simplified]
      tag_stored_in_started kept
    by (simp add: started_facts(3) report_tag UDP_IN_BUFFER_SIZE_def del: take_append)
  show ?thesis
    unfolding read second_start
    by (simp add: sizeof_file_header_def fopen_wb_def printf_def fclose_def started_world_def
        receiving_world_def quiet_world_def)
qed

section \<open>Clock and stream numbers only grow\<close>

definition later :: "world \<Rightarrow> world \<Rightarrow> bool" where
  "later w w' = (clock w \<le> clock w' \<and> fs_next w \<le> fs_next w')"

lemma later_refl [simp]: "later w w"
  by (simp add: later_def)

lemma later_trans [trans]: "later w w1 \<Longrightarrow> later w1 w2 \<Longrightarrow> later w w2"
  by (auto simp: later_def)

lemma later_simple [simp]:
  "later w (printf msg w)" "later w (fclose h w)" "later w (sleep 1 w)"
  "later w (snd (fopen_rb path w))" "later w (snd (fopen_wb path w))"
  "later w (snd (fwrite data h w))" "later w (snd (sendto data w))"
  by (auto simp: later_def printf_def fclose_def sleep_def fopen_rb_def fopen_wb_def fwrite_def
      sendto_def Let_def split: option.splits)

lemma later_send_data_loop: "later w (send_data_loop the_bytes w)"
proof (induction the_bytes w rule: send_data_loop.induct)
  case (1 the_bytes w)
  show ?case
  proof (cases "the_bytes = []")
    case True
    then show ?thesis by (simp add: send_data_loop.simps)
  next
    case False
    obtain bytes_sent w1 where sent: "sendto the_bytes w = (bytes_sent, w1)"
      by (cases "sendto the_bytes w")
    have first: "later w w1"
      using later_simple(7) [of w the_bytes] sent by simp
    show ?thesis
    proof (cases "bytes_sent < 0")
      case True
      have "later w1 (printf Unable_to_send w1)" by simp
      with first have "later w (printf Unable_to_send w1)" by (rule later_trans)
      with False sent True show ?thesis
        by (subst send_data_loop.simps) simp
    next
      case nonneg: False
      from "1.IH" [OF False sent [symmetric] nonneg] first
      have "later w (send_data_loop (drop (nat bytes_sent) the_bytes) w1)"
        by (blast intro: later_trans)
      with False sent nonneg show ?thesis
        by (subst send_data_loop.simps) simp
    qed
  qed
qed

lemma later_send_data [simp]: "later w (send_data this_data c w)"
  by (simp add: send_data_def later_send_data_loop)

lemma later_send_blocks: "later w (send_blocks out_count unread c w)"
proof (induction out_count unread c w rule: send_blocks.induct)
  case (1 out_count unread c w)
  show ?case
  proof (cases "out_count > 0")
    case False
    then show ?thesis by (subst send_blocks.simps) simp
  next
    case True
    let ?size = "if out_count > int MAX_OUT_DATA_SIZE then int MAX_OUT_DATA_SIZE else out_count"
    let ?w1 = "send_data (take (nat ?size) unread) c w"
    have "later ?w1 (send_blocks (out_count - ?size) (drop (nat ?size) unread) c ?w1)"
      using "1.IH" [OF True refl refl] .
    moreover have "later w ?w1" by simp
    ultimately have "later w (send_blocks (out_count - ?size) (drop (nat ?size) unread) c ?w1)"
      by (blast intro: later_trans)
    then show ?thesis
      using True by (subst send_blocks.simps) (simp add: Let_def)
  qed
qed

lemma later_send_file [simp]: "later w (send_file path_and_name response c w)"
proof -
  let ?path = "c_string (remove_endline (skipspace path_and_name))"
  show ?thesis
  proof (cases "fs_files w ?path")
    case None
    then show ?thesis
      by (simp add: send_file_def Let_def)
  next
    case (Some content)
    obtain f w1 where opened: "fopen_rb ?path w = (f, w1)"
      by (cases "fopen_rb ?path w")
    have first: "later w w1"
      using later_simple(4) [of w ?path] opened by simp
    show ?thesis
    proof (cases f)
      case None
      have "later w1 (printf msg w1)" for msg by simp
      with first have "later w (printf msg w1)" for msg
        by (rule later_trans)
      with first Some opened None show ?thesis
        by (simp add: send_file_def Let_def)
    next
      case (Some in_file_p)
      have "later w (fclose in_file_p (send_blocks n content c (printf msg (send_data frame c w1))))"
        for n msg frame
      proof -
        note first
        also have "later w1 (send_data frame c w1)"
          by simp
        also have "later (send_data frame c w1) (printf msg (send_data frame c w1))"
          by simp
        also have "later (printf msg (send_data frame c w1))
                     (send_blocks n content c (printf msg (send_data frame c w1)))"
          by (rule later_send_blocks)
        also have "later (send_blocks n content c (printf msg (send_data frame c w1)))
                     (fclose in_file_p (send_blocks n content c (printf msg (send_data frame c w1))))"
          by simp
        finally show ?thesis .
      qed
      with \<open>fs_files w ?path = Some content\<close> opened Some show ?thesis
        by (simp add: send_file_def Let_def)
    qed
  qed
qed

lemma later_get_file [simp]: "later w (get_file path_and_name c w)"
proof -
  have "later w (printf msg (send_data frame c w))" for msg frame
  proof -
    have "later w (send_data frame c w)"
      by simp
    also have "later (send_data frame c w) (printf msg (send_data frame c w))"
      by simp
    finally show ?thesis .
  qed
  then show ?thesis
    by (simp add: get_file_def Let_def)
qed

lemma later_send_text [simp]: "later w (send_text this_text c w)"
  by (simp add: send_text_def)

lemma later_write_block: "later w (snd (write_block this_data tries out_file w))"
proof (induction this_data tries out_file w rule: write_block.induct)
  case (1 this_data write_try_count out_file w)
  show ?case
  proof (cases "this_data \<noteq> [] \<and> write_try_count < MAX_FILE_WRITE_RETRY_COUNT")
    case False
    then show ?thesis by (subst write_block.simps) auto
  next
    case True
    obtain k w1 where fw: "fwrite this_data out_file w = (k, w1)"
      by (cases "fwrite this_data out_file w")
    have first: "later w w1"
      using later_simple(6) [of w this_data out_file] fw by simp
    show ?thesis
    proof (cases "k > 0")
      case pos: True
      from "1.IH"(1) [OF True fw [symmetric] pos] first
      have "later w (snd (write_block (drop k this_data) 0 out_file w1))"
        by (rule later_trans [rotated])
      with True fw pos show ?thesis
        by (subst write_block.simps) simp
    next
      case zero: False
      have "later w (sleep 1 w1)"
        using first later_simple(3) [of w1] by (rule later_trans)
      with "1.IH"(2) [OF True fw [symmetric] zero]
      have "later w (snd (write_block this_data (Suc write_try_count) out_file (sleep 1 w1)))"
        by (rule later_trans [rotated])
      with True fw zero show ?thesis
        by (subst write_block.simps) simp
    qed
  qed
qed

lemma later_choose_name: "later w (snd (choose_name requested tries w))"
proof (induction requested tries w rule: choose_name.induct)
  case (1 requested name_try_count w)
  show ?case
  proof (cases "name_try_count < MAX_FILE_OVERWRITE_CHECK")
    case False
    then show ?thesis by (subst choose_name.simps) simp
  next
    case True
    let ?name = "if Suc name_try_count > 0 then requested @ decimal (Suc name_try_count) else requested"
    obtain f w1 where opened: "fopen_rb ?name w = (f, w1)"
      by (cases "fopen_rb ?name w")
    have first: "later w w1"
      using later_simple(4) [of w ?name] unfolding opened by simp
    show ?thesis
    proof (cases f)
      case None
      with True opened first show ?thesis
        by (subst choose_name.simps) (simp add: Let_def)
    next
      case (Some h)
      have "later w (fclose h w1)"
        using first later_simple(2) [of w1 h] by (rule later_trans)
      moreover have "later (fclose h w1) (snd (choose_name requested (Suc name_try_count) (fclose h w1)))"
        using "1.IH" [OF True refl refl, of "Some h" w1 h] opened Some by simp
      ultimately have "later w (snd (choose_name requested (Suc name_try_count) (fclose h w1)))"
        by (rule later_trans)
      with True opened Some show ?thesis
        by (subst choose_name.simps) (simp add: Let_def)
    qed
  qed
qed

section \<open>An invariant of the vector of control blocks\<close>

text \<open>
  What holds of the vector in every reachable state: one entry for an address at most, every
  entry receiving into a file that was opened, with its timer running, at a time after the
  epoch.
\<close>

definition registry_ok :: "ChatClass \<Rightarrow> world \<Rightarrow> bool" where
  "registry_ok c w =
     (distinct (map ip_address (send_control c)) \<and>
      (\<forall>b\<in>set (send_control c).
          in_file_transfer b \<and> 0 < transfer_start_time b \<and>
          (\<exists>out_file. out_file_p b = Some out_file \<and> out_file < fs_next w)) \<and>
      0 < clock w)"

lemma registry_ok_later: "registry_ok c w \<Longrightarrow> later w w' \<Longrightarrow> registry_ok c w'"
  by (fastforce simp: registry_ok_def later_def)

lemma registry_ok_buffer [simp]:
  "registry_ok (c\<lparr>udp_inbound_buffer := buffer\<rparr>) w = registry_ok c w"
  by (simp add: registry_ok_def)

lemma find_control_None: "find_control bs ip = None \<longleftrightarrow> ip \<notin> ip_address ` set bs"
  by (induction bs) auto

lemma find_control_Some:
  "find_control bs ip = Some i \<Longrightarrow> i < length bs \<and> ip_address (bs ! i) = ip"
  by (induction bs arbitrary: i) (auto split: if_splits)

lemma set_erase: "set (erase i xs) \<subseteq> set xs"
  by (auto simp: erase_def dest: in_set_takeD in_set_dropD)

lemma distinct_erase: "distinct (map f xs) \<Longrightarrow> distinct (map f (erase i xs))"
  by (simp add: erase_def take_map [symmetric] drop_map [symmetric] distinct_take distinct_drop
      set_take_disj_set_drop_if_distinct)

lemma erase_found_absent:
  assumes "distinct (map ip_address bs)" and "find_control bs ip = Some i"
  shows "ip \<notin> ip_address ` set (erase i bs)"
proof -
  from find_control_Some [OF assms(2)] have i: "i < length bs" and at: "ip_address (bs ! i) = ip"
    by simp_all
  have "bs = take i bs @ bs ! i # drop (Suc i) bs"
    using i by (rule id_take_nth_drop)
  then have "map ip_address bs = map ip_address (take i bs @ bs ! i # drop (Suc i) bs)"
    by simp
  then have "map ip_address bs = map ip_address (take i bs) @ ip # map ip_address (drop (Suc i) bs)"
    using at by simp
  with assms(1) have "ip \<notin> set (map ip_address (take i bs)) \<union> set (map ip_address (drop (Suc i) bs))"
    by (metis Un_iff distinct.simps(2) distinct_append disjoint_iff list.set_intros(1))
  then show ?thesis
    by (auto simp: erase_def)
qed

lemma registry_ok_erase:
  "registry_ok c w \<Longrightarrow> registry_ok (c\<lparr>send_control := erase i (send_control c)\<rparr>) w"
  using set_erase [of i "send_control c"]
  by (auto simp: registry_ok_def distinct_erase)

lemma registry_ok_update:
  assumes "registry_ok c w" and "i < length (send_control c)"
    and "ip_address b = ip_address (send_control c ! i)"
    and "in_file_transfer b" and "0 < transfer_start_time b"
    and "out_file_p b = out_file_p (send_control c ! i)"
  shows "registry_ok (c\<lparr>send_control := (send_control c)[i := b]\<rparr>) w"
proof -
  have same: "map ip_address ((send_control c)[i := b]) = map ip_address (send_control c)"
    using assms(2,3) by (simp add: map_update list_update_same_conv)
  have "send_control c ! i \<in> set (send_control c)"
    using assms(2) by simp
  with assms(1) obtain out_file where "out_file_p (send_control c ! i) = Some out_file"
    and "out_file < fs_next w"
    by (auto simp: registry_ok_def)
  then have "\<exists>out_file. out_file_p b = Some out_file \<and> out_file < fs_next w"
    using assms(6) by simp
  with assms(1,4,5) show ?thesis
    unfolding registry_ok_def
    by (auto simp: same dest!: set_update_subset_insert [THEN subsetD])
qed


lemma registry_ok_push:
  assumes "registry_ok c w" and "ip_address b \<notin> ip_address ` set (send_control c)"
    and "in_file_transfer b" and "0 < transfer_start_time b"
    and "out_file_p b = Some out_file" and "out_file < fs_next w"
  shows "registry_ok (c\<lparr>send_control := send_control c @ [b]\<rparr>) w"
  using assms by (auto simp: registry_ok_def)

lemma registry_ok_receive_file_block:
  assumes "registry_ok c w" and "receive_file_block this_data ip c w = (accepted, c', w')"
  shows "registry_ok c' w'"
proof (cases "receiving_from c ip")
  case False
  with assms show ?thesis
    by (simp add: receive_file_block_refuses)
next
  case True
  then obtain i h where found: "find_send_control c ip = Some i"
    and opened: "out_file_p (send_control c ! i) = Some h"
    and transfer: "in_file_transfer (send_control c ! i)"
    by (auto simp: receiving_from_def split: option.splits)
  have i: "i < length (send_control c)"
    using found find_control_Some by (simp add: find_send_control_def)
  let ?w1 = "snd (write_block this_data 0 h w)"
  have grown: "later w ?w1"
    by (rule later_write_block)
  then have ok1: "registry_ok c ?w1"
    using assms(1) by (rule registry_ok_later [rotated])
  then have now: "0 < clock ?w1"
    by (simp add: registry_ok_def)
  have closed: "registry_ok (c\<lparr>send_control := erase i (send_control c)\<rparr>) (fclose h ?w1)"
  proof -
    have "registry_ok (c\<lparr>send_control := erase i (send_control c)\<rparr>) ?w1"
      using ok1 by (rule registry_ok_erase)
    then show ?thesis
      by (rule registry_ok_later) simp
  qed
  show ?thesis
    using assms(2) closed transfer now unfolding receive_file_block_open [OF found opened transfer]
    by (auto simp: Let_def split: if_splits intro!: registry_ok_update [OF ok1 i])
qed

lemma abort_previous_ok:
  assumes "registry_ok c w" and "abort_previous ip c w = (c1, w1)"
  shows "registry_ok c1 w1" and "ip \<notin> ip_address ` set (send_control c1)" and "later w w1"
proof -
  have grown: "later w w1"
  proof -
    have "later w (printf msg (fclose h w))" for msg h
    proof -
      have "later w (fclose h w)" by simp
      also have "later (fclose h w) (printf msg (fclose h w))" by simp
      finally show ?thesis .
    qed
    then show ?thesis
      using assms(2)
      by (auto simp: abort_previous_def Let_def split: option.splits if_splits)
  qed
  then show "later w w1" .
  have c1: "c1 = (case find_send_control c ip of None \<Rightarrow> c
                  | Some i \<Rightarrow> c\<lparr>send_control := erase i (send_control c)\<rparr>)"
    using assms(2) by (auto simp: abort_previous_def Let_def split: option.splits)
  have "registry_ok c1 w"
    using assms(1) by (auto simp: c1 registry_ok_erase split: option.splits)
  then show "registry_ok c1 w1"
    using grown by (rule registry_ok_later)
  show "ip \<notin> ip_address ` set (send_control c1)"
  proof (cases "find_send_control c ip")
    case None
    then show ?thesis
      using find_control_None [of "send_control c" ip] by (simp add: c1 find_send_control_def)
  next
    case (Some i)
    then show ?thesis
      using erase_found_absent [of "send_control c" ip i] assms(1)
      by (simp add: c1 find_send_control_def registry_ok_def)
  qed
qed

lemma registry_ok_receive_file_start:
  assumes "registry_ok c w" and "receive_file_start this_data n ip c w = (c', w')"
  shows "registry_ok c' w'"
proof -
  obtain c1 w1 where aborted: "abort_previous ip c w = (c1, w1)"
    by (cases "abort_previous ip c w")
  note ok1 = abort_previous_ok [OF assms(1) aborted]
  let ?hdr = "header_of_bytes this_data"
  show ?thesis
  proof (cases "file_size ?hdr = 0")
    case True
    with assms(2) aborted ok1(1) show ?thesis
      by (simp add: receive_file_start_zero)
  next
    case False
    obtain chosen w2 where named: "choose_name (c_string (file_name_region ?hdr)) 0 w1 = (chosen, w2)"
      by (cases "choose_name (c_string (file_name_region ?hdr)) 0 w1")
    have grown2: "later w1 w2"
      using later_choose_name [of w1 "c_string (file_name_region ?hdr)" 0] named by simp
    have ok2: "registry_ok c1 w2"
      using ok1(1) grown2 by (rule registry_ok_later)
    show ?thesis
    proof (cases chosen)
      case None
      with assms(2) aborted False named ok2 show ?thesis
        by (simp add: receive_file_start_def Let_def)
    next
      case (Some out_file_name)
      obtain f w3 where created: "fopen_wb out_file_name w2 = (f, w3)"
        by (cases "fopen_wb out_file_name w2")
      have grown3: "later w2 w3"
        using later_simple(5) [of w2 out_file_name] unfolding created by simp
      have ok3: "registry_ok c1 w3"
        using ok2 grown3 by (rule registry_ok_later)
      show ?thesis
      proof (cases f)
        case None
        with assms(2) aborted False named Some created ok3 show ?thesis
          by (simp add: receive_file_start_def Let_def)
      next
        case (Some out_file)
        let ?b = "\<lparr>in_file_transfer = True, to_receive_count = file_size ?hdr,
                  out_file_p = Some out_file, transfer_start_time = clock w2, ip_address = ip\<rparr>"
        let ?c2 = "c1\<lparr>send_control := send_control c1 @ [?b]\<rparr>"
        let ?w4 = "printf (Inbound_file out_file_name (file_size ?hdr) ip) w3"
        have fresh: "out_file < fs_next w3"
          using created Some by (auto simp: fopen_wb_def split: if_splits)
        have now: "0 < clock w2"
          using ok2 by (simp add: registry_ok_def)
        have "registry_ok ?c2 w3"
          using ok3 ok1(2) now fresh by (intro registry_ok_push) simp_all
        then have ok4: "registry_ok ?c2 ?w4"
          by (rule registry_ok_later) simp
        have result: "(c', w') =
          (if n - int sizeof_file_header > 0
           then snd (receive_file_block
                       (take (nat (n - int sizeof_file_header)) (drop sizeof_file_header this_data))
                       ip ?c2 ?w4)
           else (?c2, ?w4))"
          using assms(2) aborted False named \<open>chosen = Some out_file_name\<close> created Some
          by (simp add: receive_file_start_def Let_def)
        show ?thesis
        proof (cases "n - int sizeof_file_header > 0")
          case False
          with result ok4 show ?thesis by simp
        next
          case True
          obtain accepted where "receive_file_block
              (take (nat (n - int sizeof_file_header)) (drop sizeof_file_header this_data))
              ip ?c2 ?w4 = (accepted, c', w')"
            using result True
            by (cases "receive_file_block
              (take (nat (n - int sizeof_file_header)) (drop sizeof_file_header this_data))
              ip ?c2 ?w4") simp
          with ok4 show ?thesis
            by (rule registry_ok_receive_file_block)
        qed
      qed
    qed
  qed
qed

lemma registry_ok_file_transfer:
  assumes "registry_ok c w" and "file_transfer this_data n ip c w = (c', w')"
  shows "registry_ok c' w'"
proof -
  have "registry_ok c (get_file_request this_data c w)"
    using assms(1) unfolding get_file_request_def by (rule registry_ok_later) simp
  with assms show ?thesis
    by (auto simp: file_transfer_def Let_def registry_ok_receive_file_start split: if_splits)
qed

lemma registry_ok_read_data:
  assumes "registry_ok c w" and "read_data frame c w = (read_count, c', w')"
  shows "registry_ok c' w'"
proof (cases "receive_socket c \<noteq> HANDLE_NOT_VALID \<and> (\<exists>datagram ip. frame = Some (datagram, ip) \<and> datagram \<noteq> [])")
  case False
  then have "c' = c\<lparr>udp_inbound_buffer := udp_inbound_buffer c'\<rparr> \<and> w' = w"
    using assms(2)
    by (cases frame) (auto simp: read_data_def recvfrom_def Let_def UDP_IN_BUFFER_SIZE_def
        split: if_splits prod.splits)
  then show ?thesis
    using assms(1) by (metis registry_ok_buffer)
next
  case True
  then obtain datagram ip where frame: "frame = Some (datagram, ip)" and some: "datagram \<noteq> []"
    and socket: "receive_socket c \<noteq> HANDLE_NOT_VALID"
    by auto
  let ?c1 = "c\<lparr>udp_inbound_buffer := stored_in datagram (udp_inbound_buffer c)\<rparr>"
  have ok1: "registry_ok ?c1 w"
    using assms(1) by simp
  show ?thesis
  proof (cases "take 6 (stored_in datagram (udp_inbound_buffer c)) = '':xfer:''")
    case True
    with assms(2) have "file_transfer (stored_in datagram (udp_inbound_buffer c))
        (int (length (take UDP_IN_BUFFER_SIZE datagram))) ip ?c1 w = (c', w')"
      unfolding frame read_data_frame [OF socket some] by simp
    with ok1 show ?thesis
      by (rule registry_ok_file_transfer)
  next
    case False
    obtain accepted c2 w2 where block:
      "receive_file_block (take UDP_IN_BUFFER_SIZE datagram) ip ?c1 w = (accepted, c2, w2)"
      by (cases "receive_file_block (take UDP_IN_BUFFER_SIZE datagram) ip ?c1 w")
    with assms(2) False have "c' = c2" and "w' = w2"
      unfolding frame read_data_frame [OF socket some] by (auto split: bool.splits)
    with registry_ok_receive_file_block [OF ok1 block] show ?thesis
      by simp
  qed
qed

section \<open>The timeout sweep removes what has timed out\<close>

text \<open>The test of the sweep on one entry, and what the sweep does to the world for it.\<close>

definition timer_ran_out :: "int \<Rightarrow> file_sent_control \<Rightarrow> bool" where
  "timer_ran_out current_time b =
     (transfer_start_time b > 0 \<and> current_time \<ge> transfer_start_time b + 10)"

definition close_timed_out :: "world \<Rightarrow> file_sent_control \<Rightarrow> world" where
  "close_timed_out w b =
     (case out_file_p b of
        None \<Rightarrow> w
      | Some out_file \<Rightarrow> printf Transfer_timed_out (fclose out_file w))"

lemma first_timed_out_None:
  "first_timed_out bs t = None \<longleftrightarrow> (\<forall>b\<in>set bs. \<not> timer_ran_out t b)"
  by (induction bs) (auto simp: timer_ran_out_def)

lemma first_timed_out_Some:
  "first_timed_out bs t = Some i \<Longrightarrow>
     i < length bs \<and> timer_ran_out t (bs ! i) \<and> (\<forall>b\<in>set (take i bs). \<not> timer_ran_out t b)"
proof (induction bs arbitrary: i)
  case Nil
  then show ?case by simp
next
  case (Cons b bs)
  show ?case
  proof (cases "timer_ran_out t b")
    case True
    with Cons.prems show ?thesis
      by (simp add: timer_ran_out_def)
  next
    case False
    with Cons.prems obtain j where "first_timed_out bs t = Some j" and "i = Suc j"
      by (auto simp: timer_ran_out_def split: if_splits)
    with Cons.IH [of j] False show ?thesis
      by simp
  qed
qed

lemma filter_first_timed_out:
  assumes "first_timed_out bs t = Some i"
  shows "filter (timer_ran_out t) bs = bs ! i # filter (timer_ran_out t) (erase i bs)"
    and "filter (\<lambda>b. \<not> timer_ran_out t b) bs = filter (\<lambda>b. \<not> timer_ran_out t b) (erase i bs)"
proof -
  from first_timed_out_Some [OF assms]
  have i: "i < length bs" and out: "timer_ran_out t (bs ! i)"
    and before: "\<forall>b\<in>set (take i bs). \<not> timer_ran_out t b"
    by simp_all
  have none: "filter (timer_ran_out t) (take i bs) = []"
    using before by (simp add: filter_empty_conv)
  have split: "bs = take i bs @ bs ! i # drop (Suc i) bs"
    using i by (rule id_take_nth_drop)
  have "filter (timer_ran_out t) bs =
        filter (timer_ran_out t) (take i bs @ bs ! i # drop (Suc i) bs)"
    using split by simp
  then show "filter (timer_ran_out t) bs = bs ! i # filter (timer_ran_out t) (erase i bs)"
    using none out by (simp add: erase_def)
  have "filter (\<lambda>b. \<not> timer_ran_out t b) bs =
        filter (\<lambda>b. \<not> timer_ran_out t b) (take i bs @ bs ! i # drop (Suc i) bs)"
    using split by simp
  then show "filter (\<lambda>b. \<not> timer_ran_out t b) bs = filter (\<lambda>b. \<not> timer_ran_out t b) (erase i bs)"
    using out by (simp add: erase_def)
qed

lemma clock_close_timed_out [simp]: "clock (close_timed_out w b) = clock w"
  by (simp add: close_timed_out_def printf_def fclose_def split: option.splits)

lemma restart_search_filter:
  "restart_search any_timeouts c w =
     (any_timeouts \<or> (\<exists>b\<in>set (send_control c). timer_ran_out (clock w) b),
      c\<lparr>send_control := filter (\<lambda>b. \<not> timer_ran_out (clock w) b) (send_control c)\<rparr>,
      foldl close_timed_out w (filter (timer_ran_out (clock w)) (send_control c)))"
proof (induction any_timeouts c w rule: restart_search.induct)
  case (1 any_timeouts c w)
  show ?case
  proof (cases "first_timed_out (send_control c) (clock w)")
    case None
    then have none: "\<forall>b\<in>set (send_control c). \<not> timer_ran_out (clock w) b"
      by (simp add: first_timed_out_None)
    then have "filter (timer_ran_out (clock w)) (send_control c) = []"
      and "filter (\<lambda>b. \<not> timer_ran_out (clock w) b) (send_control c) = send_control c"
      by (simp_all add: filter_empty_conv filter_id_conv)
    with None none show ?thesis
      by (subst restart_search.simps) simp
  next
    case (Some i)
    let ?b = "send_control c ! i"
    let ?c1 = "c\<lparr>send_control := erase i (send_control c)\<rparr>"
    have step: "restart_search any_timeouts c w = restart_search True ?c1 (close_timed_out w ?b)"
      using Some by (subst restart_search.simps) (simp add: Let_def close_timed_out_def)
    have ih: "restart_search True ?c1 (close_timed_out w ?b) =
       (True \<or> (\<exists>b\<in>set (send_control ?c1). timer_ran_out (clock (close_timed_out w ?b)) b),
        ?c1\<lparr>send_control := filter (\<lambda>b. \<not> timer_ran_out (clock (close_timed_out w ?b)) b) (send_control ?c1)\<rparr>,
        foldl close_timed_out (close_timed_out w ?b)
          (filter (timer_ran_out (clock (close_timed_out w ?b))) (send_control ?c1)))"
      using "1.IH" [OF Some refl refl, folded close_timed_out_def] .
    have found: "\<exists>b\<in>set (send_control c). timer_ran_out (clock w) b"
      using first_timed_out_Some [OF Some] by (metis nth_mem)
    show ?thesis
      unfolding step ih using found
      by (simp add: filter_first_timed_out [OF Some])
  qed
qed


lemma foldl_close_timed_out:
  "clock (foldl close_timed_out w bs) = clock w"
  "fs_next (foldl close_timed_out w bs) = fs_next w"
  "fs_files (foldl close_timed_out w bs) = fs_files w"
  "fs_streams (foldl close_timed_out w bs) out_file =
     (if Some out_file \<in> out_file_p ` set bs then None else fs_streams w out_file)"
  "console (foldl close_timed_out w bs) =
     console w @ replicate (length (filter (\<lambda>b. out_file_p b \<noteq> None) bs)) Transfer_timed_out"
proof (induction bs arbitrary: w)
  case Nil
  {
    case 1 show ?case by simp
  next
    case 2 show ?case by simp
  next
    case 3 show ?case by simp
  next
    case 4 show ?case by simp
  next
    case 5 show ?case by simp
  }
next
  case (Cons b bs)
  {
    case 1 show ?case
      by (simp add: Cons.IH(1))
  next
    case 2 show ?case
      by (simp add: Cons.IH(2)) (simp add: close_timed_out_def printf_def fclose_def split: option.splits)
  next
    case 3 show ?case
      by (simp add: Cons.IH(3)) (simp add: close_timed_out_def printf_def fclose_def split: option.splits)
  next
    case 4 show ?case
      by (simp add: Cons.IH(4))
         (auto simp: close_timed_out_def printf_def fclose_def image_iff split: option.splits)
  next
    case 5 show ?case
      by (simp add: Cons.IH(5))
         (simp add: close_timed_out_def printf_def fclose_def replicate_append_same
            split: option.splits)
  }
qed

lemma registry_ok_transfer_timed_out:
  assumes "registry_ok c w" and "transfer_timed_out c w = (any_timeouts, c', w')"
  shows "registry_ok c' w'"
proof -
  have c': "c' = c\<lparr>send_control := filter (\<lambda>b. \<not> timer_ran_out (clock w) b) (send_control c)\<rparr>"
    and w': "w' = foldl close_timed_out w (filter (timer_ran_out (clock w)) (send_control c))"
    using assms(2) by (simp_all add: transfer_timed_out_def restart_search_filter)
  show ?thesis
    using assms(1) unfolding registry_ok_def c' w'
    by (auto simp: foldl_close_timed_out distinct_map_filter)
qed

lemma registry_ok_constructed:
  assumes "ChatClass_new popen_handle send_fd recv_fd bind_result port w = (Inr c, w')"
    and "0 < clock w"
  shows "registry_ok c w'"
  using assms by (auto simp: ChatClass_new_def Let_def registry_ok_def split: if_splits)

lemma environment_later: "environment w w' \<Longrightarrow> later w w'"
  by (simp add: environment_def later_def)

lemma reachable_registry_ok: "reachable c w \<Longrightarrow> registry_ok c w"
proof (induction rule: reachable.induct)
  case (constructed popen_handle send_fd recv_fd bind_result port w c w')
  then show ?case by (rule registry_ok_constructed)
next
  case (data_read c w frame read_count c' w')
  then show ?case by (blast intro: registry_ok_read_data)
next
  case (timeouts_checked c w any_timeouts c' w')
  then show ?case by (blast intro: registry_ok_transfer_timed_out)
next
  case (text_sent c w this_text)
  then show ?case by (blast intro: registry_ok_later later_send_text)
next
  case (file_sent c w path_and_name response_to_get_request)
  then show ?case by (blast intro: registry_ok_later later_send_file)
next
  case (file_requested c w path_and_name)
  then show ?case by (blast intro: registry_ok_later later_get_file)
next
  case (buffer_written c w buffer)
  then show ?case by simp
next
  case (world_moved c w w')
  then show ?case by (blast intro: registry_ok_later environment_later)
qed


text \<open>
  C7. In a reachable state every timer runs, so the sweep removes exactly the entries whose
  time is ten seconds or more behind the clock and keeps the others as they are and in
  their order. It returns true if and only if there is such an entry. The output of every
  removed entry is closed, no other stream is touched, and one message, a timeout, is
  printed for each removed entry; files and clock are as before.
\<close>

theorem sweep_removes_timed_out:
  assumes "reachable c w" and "transfer_timed_out c w = (any_timeouts, c', w')"
  shows
    "c' = c\<lparr>send_control := filter (\<lambda>b. clock w < transfer_start_time b + 10) (send_control c)\<rparr> \<and>
     (any_timeouts \<longleftrightarrow> (\<exists>b\<in>set (send_control c). transfer_start_time b + 10 \<le> clock w)) \<and>
     (\<forall>b\<in>set (send_control c). transfer_start_time b + 10 \<le> clock w \<longrightarrow>
        (\<exists>out_file. out_file_p b = Some out_file \<and> fs_streams w' out_file = None)) \<and>
     (\<forall>out_file.
        (\<forall>b\<in>set (send_control c). transfer_start_time b + 10 \<le> clock w \<longrightarrow>
           out_file_p b \<noteq> Some out_file) \<longrightarrow>
        fs_streams w' out_file = fs_streams w out_file) \<and>
     console w' =
       console w @
       replicate (length (filter (\<lambda>b. transfer_start_time b + 10 \<le> clock w) (send_control c)))
         Transfer_timed_out \<and>
     fs_files w' = fs_files w \<and> clock w' = clock w"
proof -
  let ?bs = "send_control c"
  from assms(1) have ok: "registry_ok c w"
    by (rule reachable_registry_ok)
  then have running: "timer_ran_out (clock w) b \<longleftrightarrow> transfer_start_time b + 10 \<le> clock w"
    and opened: "\<exists>out_file. out_file_p b = Some out_file" if "b \<in> set ?bs" for b
    using that by (auto simp: registry_ok_def timer_ran_out_def)
  have out: "filter (timer_ran_out (clock w)) ?bs =
             filter (\<lambda>b. transfer_start_time b + 10 \<le> clock w) ?bs"
    using running by (intro filter_cong) simp_all
  have kept: "filter (\<lambda>b. \<not> timer_ran_out (clock w) b) ?bs =
              filter (\<lambda>b. clock w < transfer_start_time b + 10) ?bs"
    using running by (intro filter_cong) auto
  have all_open: "filter (\<lambda>b. transfer_start_time b + 10 \<le> clock w \<and>
                             (\<exists>out_file. out_file_p b = Some out_file)) ?bs =
                  filter (\<lambda>b. transfer_start_time b + 10 \<le> clock w) ?bs"
    using opened by (intro filter_cong) auto
  have c': "c' = c\<lparr>send_control := filter (\<lambda>b. clock w < transfer_start_time b + 10) ?bs\<rparr>"
    and flag: "any_timeouts \<longleftrightarrow> (\<exists>b\<in>set ?bs. timer_ran_out (clock w) b)"
    and w': "w' = foldl close_timed_out w (filter (\<lambda>b. transfer_start_time b + 10 \<le> clock w) ?bs)"
    using assms(2) by (simp_all add: transfer_timed_out_def restart_search_filter out kept)
  have "any_timeouts \<longleftrightarrow> (\<exists>b\<in>set ?bs. transfer_start_time b + 10 \<le> clock w)"
    using flag running by blast
  moreover have "\<exists>out_file. out_file_p b = Some out_file \<and> fs_streams w' out_file = None"
    if "b \<in> set ?bs" and "transfer_start_time b + 10 \<le> clock w" for b
  proof -
    from opened [OF that(1)] obtain out_file where "out_file_p b = Some out_file" ..
    moreover from this that have "fs_streams w' out_file = None"
      by (auto simp: w' foldl_close_timed_out image_iff)
    ultimately show ?thesis by blast
  qed
  moreover have "fs_streams w' out_file = fs_streams w out_file"
    if "\<forall>b\<in>set ?bs. transfer_start_time b + 10 \<le> clock w \<longrightarrow> out_file_p b \<noteq> Some out_file"
    for out_file
    using that by (auto simp: w' foldl_close_timed_out image_iff)
  moreover have "console w' = console w @
      replicate (length (filter (\<lambda>b. transfer_start_time b + 10 \<le> clock w) ?bs)) Transfer_timed_out"
    by (simp add: w' foldl_close_timed_out all_open)
  moreover have "fs_files w' = fs_files w" and "clock w' = clock w"
    by (simp_all add: w' foldl_close_timed_out)
  ultimately show ?thesis
    using c' by blast
qed

lemma started_reachable: "reachable started_chat started_world"
proof -
  have "0 < clock quiet_world"
    by (simp add: quiet_world_def)
  with first_chat_built have "reachable first_chat quiet_world"
    by (rule reachable.constructed)
  then show ?thesis
    using started_reached by (rule reachable.data_read)
qed

text \<open>
  A transfer that began at 1530000000 and saw no block: the sweep at 1530000010 removes it
  and closes its output, the sweep at 1530000009 changes nothing.
\<close>

theorem sweep_removes_timed_out_witness:
  "transfer_timed_out started_chat (started_world\<lparr>clock := 1530000010\<rparr>) =
     (True, started_chat\<lparr>send_control := []\<rparr>,
      printf Transfer_timed_out (fclose 0 (started_world\<lparr>clock := 1530000010\<rparr>))) \<and>
   transfer_timed_out started_chat (started_world\<lparr>clock := 1530000009\<rparr>) =
     (False, started_chat, started_world\<lparr>clock := 1530000009\<rparr>) \<and>
   fs_streams (started_world\<lparr>clock := 1530000010\<rparr>) 0 = Some ''report.txt1'' \<and>
   fs_streams (printf Transfer_timed_out (fclose 0 (started_world\<lparr>clock := 1530000010\<rparr>))) 0 = None"
proof -
  let ?late = "started_world\<lparr>clock := 1530000010\<rparr>"
  let ?early = "started_world\<lparr>clock := 1530000009\<rparr>"
  have "environment started_world ?late"
    by (simp add: environment_def started_world_def receiving_world_def quiet_world_def)
  with started_reachable have reach: "reachable started_chat ?late"
    by (rule reachable.world_moved)
  have late: "transfer_timed_out started_chat ?late =
     (True, started_chat\<lparr>send_control := []\<rparr>, printf Transfer_timed_out (fclose 0 ?late))"
    by (simp add: transfer_timed_out_def restart_search_filter started_facts timer_ran_out_def
        close_timed_out_def)
  have early: "transfer_timed_out started_chat ?early = (False, started_chat, ?early)"
    by (simp add: transfer_timed_out_def restart_search_filter started_facts timer_ran_out_def
        started_world_def)
  have before: "fs_streams ?late 0 = Some ''report.txt1''"
    by (simp add: started_world_def receiving_world_def)
  from sweep_removes_timed_out [OF reach late]
  have "fs_streams (printf Transfer_timed_out (fclose 0 ?late)) 0 = None"
    by (simp add: started_facts)
  with late early before show ?thesis
    by simp
qed

section \<open>One transfer for a peer\<close>

text \<open>A stream that has been closed and whose number will not be given out again.\<close>

definition gone :: "nat \<Rightarrow> world \<Rightarrow> bool" where
  "gone h w = (fs_streams w h = None \<and> h < fs_next w)"

lemma gone_simple:
  "gone h w \<Longrightarrow> gone h (printf msg w)"
  "gone h w \<Longrightarrow> gone h (fclose f w)"
  "gone h w \<Longrightarrow> gone h (sleep 1 w)"
  "gone h w \<Longrightarrow> gone h (snd (fopen_rb path w))"
  "gone h w \<Longrightarrow> gone h (snd (fopen_wb path w))"
  "gone h w \<Longrightarrow> f \<noteq> h \<Longrightarrow> gone h (snd (fwrite data f w))"
  by (auto simp: gone_def printf_def fclose_def sleep_def fopen_rb_def fopen_wb_def fwrite_def
      Let_def split: option.splits)

lemma gone_write_block:
  "gone h w \<Longrightarrow> f \<noteq> h \<Longrightarrow> gone h (snd (write_block this_data tries f w))"
proof (induction this_data tries f w rule: write_block.induct)
  case (1 this_data write_try_count out_file w)
  show ?case
  proof (cases "this_data \<noteq> [] \<and> write_try_count < MAX_FILE_WRITE_RETRY_COUNT")
    case False
    with "1.prems" show ?thesis by (subst write_block.simps) auto
  next
    case True
    obtain k w1 where fw: "fwrite this_data out_file w = (k, w1)"
      by (cases "fwrite this_data out_file w")
    have first: "gone h w1"
      using gone_simple(6) [OF "1.prems", of this_data] fw by simp
    show ?thesis
    proof (cases "k > 0")
      case pos: True
      from "1.IH"(1) [OF True fw [symmetric] pos first "1.prems"(2)] True fw pos show ?thesis
        by (subst write_block.simps) simp
    next
      case zero: False
      have "gone h (sleep 1 w1)"
        using first by (rule gone_simple)
      from "1.IH"(2) [OF True fw [symmetric] zero this "1.prems"(2)] True fw zero show ?thesis
        by (subst write_block.simps) simp
    qed
  qed
qed

lemma gone_choose_name: "gone h w \<Longrightarrow> gone h (snd (choose_name requested tries w))"
proof (induction requested tries w rule: choose_name.induct)
  case (1 requested name_try_count w)
  show ?case
  proof (cases "name_try_count < MAX_FILE_OVERWRITE_CHECK")
    case False
    with "1.prems" show ?thesis by (subst choose_name.simps) simp
  next
    case True
    let ?name = "if Suc name_try_count > 0 then requested @ decimal (Suc name_try_count) else requested"
    obtain f w1 where opened: "fopen_rb ?name w = (f, w1)"
      by (cases "fopen_rb ?name w")
    have first: "gone h w1"
      using gone_simple(4) [OF "1.prems", of ?name] unfolding opened by simp
    show ?thesis
    proof (cases f)
      case None
      with True opened first show ?thesis
        by (subst choose_name.simps) (simp add: Let_def)
    next
      case (Some f')
      have "gone h (fclose f' w1)"
        using first by (rule gone_simple)
      then have "gone h (snd (choose_name requested (Suc name_try_count) (fclose f' w1)))"
        using "1.IH" [OF True refl refl, of "Some f'" w1 f'] opened Some by simp
      with True opened Some show ?thesis
        by (subst choose_name.simps) (simp add: Let_def)
    qed
  qed
qed

lemma find_control_last:
  "ip \<notin> ip_address ` set bs \<Longrightarrow> ip_address b = ip \<Longrightarrow> find_control (bs @ [b]) ip = Some (length bs)"
  by (induction bs) auto

lemma receive_file_block_last:
  assumes "ip \<notin> ip_address ` set bs" and "ip_address b = ip" and "in_file_transfer b"
    and "out_file_p b = Some f" and "gone h w" and "f \<noteq> h"
    and "receive_file_block this_data ip (c\<lparr>send_control := bs @ [b]\<rparr>) w = (accepted, c', w')"
  shows "gone h w'"
    and "\<exists>started. send_control c' = bs @ started \<and> length started \<le> 1 \<and>
           (\<forall>b'\<in>set started. ip_address b' = ip \<and> out_file_p b' = Some f \<and>
                               clock w \<le> transfer_start_time b')"
proof -
  let ?c = "c\<lparr>send_control := bs @ [b]\<rparr>"
  let ?w1 = "snd (write_block this_data 0 f w)"
  have found: "find_send_control ?c ip = Some (length bs)"
    using assms(1,2) by (simp add: find_send_control_def find_control_last)
  have at: "send_control ?c ! length bs = b"
    by simp
  have written: "gone h ?w1"
    using assms(5,6) by (rule gone_write_block)
  have grown: "clock w \<le> clock ?w1"
    using later_write_block [of w this_data 0 f] by (simp add: later_def)
  note run = assms(7) [unfolded receive_file_block_open [OF found, unfolded at, OF assms(4,3)] Let_def]
  show "gone h w'"
    using run written gone_simple(2) [OF written, of f] by (auto split: if_splits)
  have "send_control c' = bs @ [] \<or>
        (\<exists>b'. send_control c' = bs @ [b'] \<and> ip_address b' = ip_address b \<and>
              out_file_p b' = out_file_p b \<and> transfer_start_time b' = clock ?w1)"
    using run by (auto simp: erase_def split: if_splits)
  then show "\<exists>started. send_control c' = bs @ started \<and> length started \<le> 1 \<and>
           (\<forall>b'\<in>set started. ip_address b' = ip \<and> out_file_p b' = Some f \<and>
                               clock w \<le> transfer_start_time b')"
  proof
    assume "send_control c' = bs @ []"
    then show ?thesis by (intro exI [of _ "[]"]) simp
  next
    assume "\<exists>b'. send_control c' = bs @ [b'] \<and> ip_address b' = ip_address b \<and>
              out_file_p b' = out_file_p b \<and> transfer_start_time b' = clock ?w1"
    then obtain b' where "send_control c' = bs @ [b']" and "ip_address b' = ip_address b"
      and "out_file_p b' = out_file_p b" and "transfer_start_time b' = clock ?w1"
      by blast
    then show ?thesis
      using assms(2,4) grown by (intro exI [of _ "[b']"]) simp
  qed
qed


lemma latest_start:
  assumes "registry_ok c w"
    and "find_send_control c ip = Some i"
    and "out_file_p (send_control c ! i) = Some h"
    and "in_file_transfer (send_control c ! i)"
    and "receive_file_start this_data n ip c w = (c', w')"
  shows "gone h w'"
    and "ip \<notin> ip_address ` set (erase i (send_control c))"
    and "\<exists>started. send_control c' = erase i (send_control c) @ started \<and> length started \<le> 1 \<and>
           (\<forall>b\<in>set started. ip_address b = ip \<and> out_file_p b \<noteq> Some h \<and>
                              clock w \<le> transfer_start_time b)"
proof -
  let ?c1 = "c\<lparr>send_control := erase i (send_control c)\<rparr>"
  let ?w1 = "printf (Aborted_previous ip) (fclose h w)"
  let ?goal = "\<exists>started. send_control c' = erase i (send_control c) @ started \<and> length started \<le> 1 \<and>
           (\<forall>b\<in>set started. ip_address b = ip \<and> out_file_p b \<noteq> Some h \<and>
                              clock w \<le> transfer_start_time b)"
  have aborted: "abort_previous ip c w = (?c1, ?w1)"
    using assms(2-4) by (simp add: abort_previous_def Let_def)
  have i: "i < length (send_control c)"
    using assms(2) find_control_Some by (simp add: find_send_control_def)
  then have "send_control c ! i \<in> set (send_control c)"
    by simp
  with assms(1,3) have below: "h < fs_next w"
    by (auto simp: registry_ok_def)
  then have gone1: "gone h ?w1"
    by (simp add: gone_def printf_def fclose_def)
  have grown1: "later w ?w1"
    using abort_previous_ok(3) [OF assms(1) aborted] .
  show absent: "ip \<notin> ip_address ` set (erase i (send_control c))"
    using abort_previous_ok(2) [OF assms(1) aborted] by simp
  let ?hdr = "header_of_bytes this_data"
  have "gone h w' \<and> ?goal"
  proof (cases "file_size ?hdr = 0")
    case True
    with assms(5) aborted gone1 have "c' = ?c1" and "gone h w'"
      by (simp_all add: receive_file_start_zero)
    then show ?thesis
      by (auto intro!: exI [of _ "[]"])
  next
    case False
    obtain chosen w2 where named: "choose_name (c_string (file_name_region ?hdr)) 0 ?w1 = (chosen, w2)"
      by (cases "choose_name (c_string (file_name_region ?hdr)) 0 ?w1")
    have gone2: "gone h w2"
      using gone_choose_name [OF gone1, of "c_string (file_name_region ?hdr)" 0] named by simp
    have "later ?w1 w2"
      using later_choose_name [of ?w1 "c_string (file_name_region ?hdr)" 0] named by simp
    with grown1 have grown2: "later w w2"
      by (rule later_trans)
    show ?thesis
    proof (cases chosen)
      case None
      with assms(5) aborted False named gone2 have "c' = ?c1" and "gone h w'"
        by (simp_all add: receive_file_start_def Let_def)
      then show ?thesis
        by (auto intro!: exI [of _ "[]"])
    next
      case (Some out_file_name)
      obtain f w3 where created: "fopen_wb out_file_name w2 = (f, w3)"
        by (cases "fopen_wb out_file_name w2")
      have gone3: "gone h w3"
        using gone_simple(5) [OF gone2, of out_file_name] unfolding created by simp
      show ?thesis
      proof (cases f)
        case None
        with assms(5) aborted False named Some created gone3 have "c' = ?c1" and "gone h w'"
          by (simp_all add: receive_file_start_def Let_def)
        then show ?thesis
          by (auto intro!: exI [of _ "[]"])
      next
        case (Some out_file)
        let ?b = "\<lparr>in_file_transfer = True, to_receive_count = file_size ?hdr,
                  out_file_p = Some out_file, transfer_start_time = clock w2, ip_address = ip\<rparr>"
        let ?c2 = "?c1\<lparr>send_control := send_control ?c1 @ [?b]\<rparr>"
        let ?w4 = "printf (Inbound_file out_file_name (file_size ?hdr) ip) w3"
        have "out_file = fs_next w2"
          using created Some by (auto simp: fopen_wb_def split: if_splits)
        with gone2 have other: "out_file \<noteq> h"
          by (auto simp: gone_def)
        have gone4: "gone h ?w4"
          using gone3 by (rule gone_simple)
        have "clock w3 = clock w2"
          using created by (auto simp: fopen_wb_def split: if_splits)
        with grown2 have time: "clock w \<le> clock w2" and time4: "clock w \<le> clock ?w4"
          by (simp_all add: later_def printf_def)
        have result: "(c', w') =
          (if n - int sizeof_file_header > 0
           then snd (receive_file_block
                       (take (nat (n - int sizeof_file_header)) (drop sizeof_file_header this_data))
                       ip ?c2 ?w4)
           else (?c2, ?w4))"
          using assms(5) aborted False named \<open>chosen = Some out_file_name\<close> created Some
          by (auto simp: receive_file_start_def Let_def)
        show ?thesis
        proof (cases "n - int sizeof_file_header > 0")
          case False
          with result have "c' = ?c2" and "w' = ?w4"
            by simp_all
          with gone4 other time show ?thesis
            by (auto intro!: exI [of _ "[?b]"])
        next
          case True
          obtain accepted where block: "receive_file_block
              (take (nat (n - int sizeof_file_header)) (drop sizeof_file_header this_data))
              ip (?c1\<lparr>send_control := erase i (send_control c) @ [?b]\<rparr>) ?w4 = (accepted, c', w')"
            using result True
            by (cases "receive_file_block
              (take (nat (n - int sizeof_file_header)) (drop sizeof_file_header this_data))
              ip ?c2 ?w4") simp
          from receive_file_block_last [OF absent _ _ _ gone4 other block]
          have "gone h w'"
            and "\<exists>started. send_control c' = erase i (send_control c) @ started \<and> length started \<le> 1 \<and>
              (\<forall>b'\<in>set started. ip_address b' = ip \<and> out_file_p b' = Some out_file \<and>
                                    clock ?w4 \<le> transfer_start_time b')"
            by simp_all
          with other time4 show ?thesis
            by fastforce
        qed
      qed
    qed
  qed
  then show "gone h w'" and ?goal
    by simp_all
qed

lemma new_start:
  assumes "registry_ok c w"
    and "find_send_control c ip = Some i"
    and "out_file_p (send_control c ! i) = Some h"
    and "in_file_transfer (send_control c ! i)"
    and "receive_file_start this_data n ip c w = (c', w')"
  shows "(let file_header = header_of_bytes this_data;
              aborted = printf (Aborted_previous ip) (fclose h w)
          in if file_size file_header = 0
             then c' = c\<lparr>send_control := erase i (send_control c)\<rparr> \<and> w' = aborted
             else (case choose_name (c_string (file_name_region file_header)) 0 aborted of
                     (None, w2) \<Rightarrow> c' = c\<lparr>send_control := erase i (send_control c)\<rparr> \<and> w' = w2
                   | (Some out_file_name, w2) \<Rightarrow>
                       (case fopen_wb out_file_name w2 of
                          (None, w3) \<Rightarrow> c' = c\<lparr>send_control := erase i (send_control c)\<rparr> \<and> w' = w3
                        | (Some new_file, w3) \<Rightarrow>
                            (let this_control = \<lparr>in_file_transfer = True,
                                                  to_receive_count = file_size file_header,
                                                  out_file_p = Some new_file,
                                                  transfer_start_time = clock w2,
                                                  ip_address = ip\<rparr>;
                                 c2 = c\<lparr>send_control := erase i (send_control c) @ [this_control]\<rparr>;
                                 w4 = printf (Inbound_file out_file_name (file_size file_header) ip) w3
                             in new_file \<noteq> h \<and>
                                fs_streams w4 new_file = Some out_file_name \<and>
                                fs_files w4 out_file_name = Some [] \<and>
                                find_send_control c2 ip = Some (length (erase i (send_control c))) \<and>
                                (c', w') =
                                  (if int sizeof_file_header < n
                                   then snd (receive_file_block
                                               (take (nat (n - int sizeof_file_header))
                                                  (drop sizeof_file_header this_data)) ip c2 w4)
                                   else (c2, w4))))))"
proof -
  let ?c1 = "c\<lparr>send_control := erase i (send_control c)\<rparr>"
  let ?w1 = "printf (Aborted_previous ip) (fclose h w)"
  let ?hdr = "header_of_bytes this_data"
  have aborted: "abort_previous ip c w = (?c1, ?w1)"
    using assms(2-4) by (simp add: abort_previous_def Let_def)
  have i: "i < length (send_control c)"
    using assms(2) find_control_Some by (simp add: find_send_control_def)
  then have "send_control c ! i \<in> set (send_control c)"
    by simp
  with assms(1,3) have below: "h < fs_next w"
    by (auto simp: registry_ok_def)
  then have gone1: "gone h ?w1"
    by (simp add: gone_def printf_def fclose_def)
  have absent: "ip \<notin> ip_address ` set (erase i (send_control c))"
    using abort_previous_ok(2) [OF assms(1) aborted] by simp
  show ?thesis
  proof (cases "file_size ?hdr = 0")
    case True
    with assms(5) aborted show ?thesis
      by (simp add: receive_file_start_zero Let_def)
  next
    case False
    obtain chosen w2 where named: "choose_name (c_string (file_name_region ?hdr)) 0 ?w1 = (chosen, w2)"
      by (cases "choose_name (c_string (file_name_region ?hdr)) 0 ?w1")
    have gone2: "gone h w2"
      using gone_choose_name [OF gone1, of "c_string (file_name_region ?hdr)" 0] named by simp
    show ?thesis
    proof (cases chosen)
      case None
      with assms(5) aborted False named show ?thesis
        by (simp add: receive_file_start_def Let_def)
    next
      case (Some out_file_name)
      obtain f w3 where created: "fopen_wb out_file_name w2 = (f, w3)"
        by (cases "fopen_wb out_file_name w2")
      show ?thesis
      proof (cases f)
        case None
        with assms(5) aborted False named Some created show ?thesis
          by (simp add: receive_file_start_def Let_def)
      next
        case (Some new_file)
        let ?b = "\<lparr>in_file_transfer = True, to_receive_count = file_size ?hdr,
                  out_file_p = Some new_file, transfer_start_time = clock w2, ip_address = ip\<rparr>"
        let ?c2 = "c\<lparr>send_control := erase i (send_control c) @ [?b]\<rparr>"
        let ?w4 = "printf (Inbound_file out_file_name (file_size ?hdr) ip) w3"
        have number: "new_file = fs_next w2"
          and stream: "fs_streams w3 new_file = Some out_file_name"
          and empty: "fs_files w3 out_file_name = Some []"
          using created Some by (auto simp: fopen_wb_def split: if_splits)
        from number gone2 have other: "new_file \<noteq> h"
          by (auto simp: gone_def)
        have last: "find_send_control ?c2 ip = Some (length (erase i (send_control c)))"
          using absent by (simp add: find_send_control_def find_control_last)
        have result: "(c', w') =
          (if int sizeof_file_header < n
           then snd (receive_file_block
                       (take (nat (n - int sizeof_file_header)) (drop sizeof_file_header this_data))
                       ip ?c2 ?w4)
           else (?c2, ?w4))"
          using assms(5) aborted False named \<open>chosen = Some out_file_name\<close> created Some
          by (auto simp: receive_file_start_def Let_def)
        have stream4: "fs_streams ?w4 new_file = Some out_file_name"
          and empty4: "fs_files ?w4 out_file_name = Some []"
          using stream empty by (simp_all add: printf_def)
        show ?thesis
          using False other stream4 empty4 last result
          by (simp add: Let_def named \<open>chosen = Some out_file_name\<close> created Some)
      qed
    qed
  qed
qed

text \<open>
  C4. In every reachable state the vector holds one entry for an address at most. And when
  a header of kind send comes from a peer whose entry is receiving into an open file, that
  file is closed and that entry erased, so that no entry of the peer is left, before the
  new transfer is begun: the name is chosen and the file created in the world where the old
  output is closed. The new transfer begins when the size in the header is not zero,
  \<open>choose_name\<close> finds a name and \<open>fopen\<close> creates the file: then an entry with
  the count of the header and the new output, open and empty and another stream than the
  old one, is appended as the only entry of the peer, where \<open>find_send_control\<close> finds
  it for the blocks of the peer from now on, and the bytes that follow the header in the
  datagram are its first block. Otherwise the vector is the old one without the entry. In
  all cases the vector afterwards is the old one without the entry, followed by one entry
  at most, which is the peer's, has another output, and a time that is not before the call.
\<close>

theorem one_transfer_per_peer:
  assumes "reachable c w"
  shows "distinct (map ip_address (send_control c)) \<and>
    (\<forall>this_data n ip i out_file c' w'.
       trans_type (header_of_bytes this_data) = trans_type_send \<and>
       find_send_control c ip = Some i \<and>
       out_file_p (send_control c ! i) = Some out_file \<and>
       in_file_transfer (send_control c ! i) \<and>
       file_transfer this_data n ip c w = (c', w') \<longrightarrow>
         fs_streams w' out_file = None \<and>
         ip \<notin> ip_address ` set (erase i (send_control c)) \<and>
         (\<exists>started. send_control c' = erase i (send_control c) @ started \<and> length started \<le> 1 \<and>
            (\<forall>b\<in>set started. ip_address b = ip \<and> out_file_p b \<noteq> Some out_file \<and>
                               clock w \<le> transfer_start_time b)) \<and>
         (let file_header = header_of_bytes this_data;
              aborted = printf (Aborted_previous ip) (fclose out_file w)
          in if file_size file_header = 0
             then c' = c\<lparr>send_control := erase i (send_control c)\<rparr> \<and> w' = aborted
             else (case choose_name (c_string (file_name_region file_header)) 0 aborted of
                     (None, w2) \<Rightarrow> c' = c\<lparr>send_control := erase i (send_control c)\<rparr> \<and> w' = w2
                   | (Some out_file_name, w2) \<Rightarrow>
                       (case fopen_wb out_file_name w2 of
                          (None, w3) \<Rightarrow> c' = c\<lparr>send_control := erase i (send_control c)\<rparr> \<and> w' = w3
                        | (Some new_file, w3) \<Rightarrow>
                            (let this_control = \<lparr>in_file_transfer = True,
                                                  to_receive_count = file_size file_header,
                                                  out_file_p = Some new_file,
                                                  transfer_start_time = clock w2,
                                                  ip_address = ip\<rparr>;
                                 c2 = c\<lparr>send_control := erase i (send_control c) @ [this_control]\<rparr>;
                                 w4 = printf (Inbound_file out_file_name (file_size file_header) ip) w3
                             in new_file \<noteq> out_file \<and>
                                fs_streams w4 new_file = Some out_file_name \<and>
                                fs_files w4 out_file_name = Some [] \<and>
                                find_send_control c2 ip = Some (length (erase i (send_control c))) \<and>
                                (c', w') =
                                  (if int sizeof_file_header < n
                                   then snd (receive_file_block
                                               (take (nat (n - int sizeof_file_header))
                                                  (drop sizeof_file_header this_data)) ip c2 w4)
                                   else (c2, w4)))))))"
proof -
  from assms have ok: "registry_ok c w"
    by (rule reachable_registry_ok)
  show ?thesis
  proof (intro conjI allI impI, goal_cases)
    case 1
    from ok show ?case
      by (simp add: registry_ok_def)
  next
    case (2 this_data n ip i out_file c' w')
    then have found: "find_send_control c ip = Some i"
      and opened: "out_file_p (send_control c ! i) = Some out_file"
      and transfer: "in_file_transfer (send_control c ! i)"
      by simp_all
    from 2 have start: "receive_file_start this_data n ip c w = (c', w')"
      by (auto simp: file_transfer_def Let_def)
    from latest_start(1) [OF ok found opened transfer start] show ?case
      by (simp add: gone_def)
  next
    case (3 this_data n ip i out_file c' w')
    then have found: "find_send_control c ip = Some i"
      and opened: "out_file_p (send_control c ! i) = Some out_file"
      and transfer: "in_file_transfer (send_control c ! i)"
      by simp_all
    from 3 have start: "receive_file_start this_data n ip c w = (c', w')"
      by (auto simp: file_transfer_def Let_def)
    from latest_start(2) [OF ok found opened transfer start] show ?case .
  next
    case (4 this_data n ip i out_file c' w')
    then have found: "find_send_control c ip = Some i"
      and opened: "out_file_p (send_control c ! i) = Some out_file"
      and transfer: "in_file_transfer (send_control c ! i)"
      by simp_all
    from 4 have start: "receive_file_start this_data n ip c w = (c', w')"
      by (auto simp: file_transfer_def Let_def)
    from latest_start(3) [OF ok found opened transfer start] show ?case .
  next
    case (5 this_data n ip i out_file c' w')
    then have found: "find_send_control c ip = Some i"
      and opened: "out_file_p (send_control c ! i) = Some out_file"
      and transfer: "in_file_transfer (send_control c ! i)"
      by simp_all
    from 5 have start: "receive_file_start this_data n ip c w = (c', w')"
      by (auto simp: file_transfer_def Let_def)
    from new_start [OF ok found opened transfer start] show ?case .
  qed
qed

lemma second_name:
  "choose_name ''report.txt'' 0 (printf (Aborted_previous peer) (fclose 0 started_world)) =
      (Some ''report.txt2'',
       (printf (Aborted_previous peer) (fclose 0 started_world))\<lparr>fs_next := 2\<rparr>)"
  by (simp add: choose_name.simps MAX_FILE_OVERWRITE_CHECK_def Let_def decimal_1 decimal_Suc_Suc
      fopen_rb_def fclose_def printf_def started_world_def receiving_world_def quiet_world_def)

lemma second_file:
  "fopen_wb ''report.txt2'' ((printf (Aborted_previous peer) (fclose 0 started_world))\<lparr>fs_next := 2\<rparr>) =
     (Some 2,
      (printf (Aborted_previous peer) (fclose 0 started_world))
        \<lparr>fs_files := [''report.txt1'' \<mapsto> [], ''report.txt2'' \<mapsto> []],
          fs_streams := [2 \<mapsto> ''report.txt2''], fs_next := 3\<rparr>)"
  by (simp add: fopen_wb_def printf_def fclose_def started_world_def receiving_world_def
      quiet_world_def)

text \<open>
  A second start from the peer whose transfer is in progress: the first output is closed,
  the only entry left is the one of the second transfer, and its output is open.
\<close>

theorem one_transfer_per_peer_witness:
  "distinct (map ip_address (send_control started_chat)) \<and>
   find_send_control started_chat peer = Some 0 \<and>
   out_file_p (send_control started_chat ! 0) = Some 0 \<and>
   fs_streams started_world 0 = Some ''report.txt1'' \<and>
   fs_streams (snd (file_transfer (udp_inbound_buffer started_chat) 6 peer started_chat started_world)) 0 =
     None \<and>
   send_control (fst (file_transfer (udp_inbound_buffer started_chat) 6 peer started_chat started_world)) =
     [\<lparr>in_file_transfer = True, to_receive_count = 5, out_file_p = Some 2,
       transfer_start_time = 1530000000, ip_address = peer\<rparr>] \<and>
   fs_streams (snd (file_transfer (udp_inbound_buffer started_chat) 6 peer started_chat started_world)) 2 =
     Some ''report.txt2''"
proof -
  let ?run = "file_transfer (udp_inbound_buffer started_chat) 6 peer started_chat started_world"
  note claim = one_transfer_per_peer [OF started_reachable]
  have header: "header_of_bytes (udp_inbound_buffer started_chat) =
     \<lparr>header_command = command_field, file_name = name_field ''report.txt'',
      file_size = 5, trans_type = trans_type_send\<rparr>"
    by (simp add: started_facts(3) report_header)
  have kind: "trans_type (header_of_bytes (udp_inbound_buffer started_chat)) = trans_type_send"
    by (simp add: header)
  have found: "find_send_control started_chat peer = Some 0"
    and opened: "out_file_p (send_control started_chat ! 0) = Some 0"
    and transfer: "in_file_transfer (send_control started_chat ! 0)"
    by (simp_all add: find_send_control_def started_facts)
  have run: "?run = (fst ?run, snd ?run)"
    by simp
  note rest = claim [THEN conjunct2, rule_format,
      OF conjI [OF kind conjI [OF found conjI [OF opened conjI [OF transfer run]]]]]
  from rest have closed: "fs_streams (snd ?run) 0 = None"
    by (rule conjunct1)
  from claim have one: "distinct (map ip_address (send_control started_chat))"
    by (rule conjunct1)
  have before: "fs_streams started_world 0 = Some ''report.txt1''"
    by (simp add: started_world_def receiving_world_def)
  from rest [THEN conjunct2, THEN conjunct2, THEN conjunct2]
  have "send_control (fst ?run) =
     [\<lparr>in_file_transfer = True, to_receive_count = 5, out_file_p = Some 2,
       transfer_start_time = 1530000000, ip_address = peer\<rparr>] \<and>
     fs_streams (snd ?run) 2 = Some ''report.txt2''"
    unfolding header Let_def report_name
    by (simp add: second_name second_file sizeof_file_header_def started_facts(4) erase_def)
       (simp add: printf_def fclose_def started_world_def receiving_world_def quiet_world_def)
  with closed one before found opened show ?thesis
    by simp
qed

end
